theory Spec2Isabelle
  imports Complex_Main "HOL-Library.Word"
begin

section \<open>Python values used by the protocol helpers\<close>

text \<open>
  A Python \<^verbatim>\<open>bytes\<close> object is a sequence of integers in \<open>0..255\<close>: a list of
  8-bit words. Reading one element (\<^verbatim>\<open>data[3]\<close>) gives a Python \<^verbatim>\<open>int\<close>, which is
  \<open>uint\<close> of the word. Python integers are unbounded: \<open>int\<close>.
\<close>

type_synonym byte = "8 word"
type_synonym bytes = "byte list"

text \<open>The exceptions the modelled code can raise (\<open>StructError\<close> is \<^verbatim>\<open>struct.error\<close>).\<close>

datatype pyerr = ValueError | StructError | IndexError | ZeroDivisionError | OverflowError

text \<open>
  \<^verbatim>\<open>bytes([v0, v1, ...])\<close> raises \<^verbatim>\<open>ValueError\<close> unless every value is in
  \<open>range(256)\<close>.
\<close>

definition bytes_of_ints :: "int list \<Rightarrow> pyerr + bytes" where
  "bytes_of_ints vs =
     (if list_all (\<lambda>v. 0 \<le> v \<and> v < 256) vs then Inr (map word_of_int vs)
      else Inl ValueError)"

text \<open>
  \<^verbatim>\<open>struct.pack('<H', n)\<close>: the two bytes of an unsigned 16-bit integer, low byte
  first; \<^verbatim>\<open>struct.error\<close> when \<open>n\<close> is outside \<open>0..65535\<close>.
\<close>

definition pack_H :: "int \<Rightarrow> pyerr + bytes" where
  "pack_H n =
     (if 0 \<le> n \<and> n \<le> 65535 then Inr [word_of_int (n mod 256), word_of_int (n div 256)]
      else Inl StructError)"

text \<open>
  \<^verbatim>\<open>struct.unpack('<H', buf)[0]\<close>: \<^verbatim>\<open>struct.error\<close> unless the buffer holds exactly
  two bytes.
\<close>

definition unpack_H :: "bytes \<Rightarrow> pyerr + int" where
  "unpack_H buf =
     (case buf of [lo, hi] \<Rightarrow> Inr (uint lo + 256 * uint hi) | _ \<Rightarrow> Inl StructError)"

text \<open>
  Python indexing \<^verbatim>\<open>xs[i]\<close>: a negative index counts from the end, and an index
  outside the sequence raises \<^verbatim>\<open>IndexError\<close>.
\<close>

definition py_index :: "'a list \<Rightarrow> int \<Rightarrow> pyerr + 'a" where
  "py_index xs i =
     (let n = int (length xs); k = (if i < 0 then i + n else i)
      in if k < 0 \<or> n \<le> k then Inl IndexError else Inr (xs ! nat k))"

text \<open>
  Python slicing \<^verbatim>\<open>xs[start:stop]\<close> (step 1). A missing bound is \<open>None\<close>; a negative
  bound counts from the end; both are clamped to the sequence, and the slice is empty
  when the bounds cross. Slicing never raises.
\<close>

definition py_clamp :: "int \<Rightarrow> int \<Rightarrow> int" where
  "py_clamp n i = (if i < 0 then max 0 (i + n) else min n i)"

definition py_slice :: "'a list \<Rightarrow> int option \<Rightarrow> int option \<Rightarrow> 'a list" where
  "py_slice xs start stop =
     (let n = int (length xs);
          lo = (case start of None \<Rightarrow> 0 | Some i \<Rightarrow> py_clamp n i);
          hi = (case stop of None \<Rightarrow> n | Some i \<Rightarrow> py_clamp n i)
      in take (nat (hi - lo)) (drop (nat lo) xs))"

section \<open>Python floats\<close>

text \<open>
  A Python \<^verbatim>\<open>float\<close> is an IEEE 754 double. A finite double is a real number
  \<open>n * 2 ^ e\<close> with \<open>\<bar>n\<bar> < 2 ^ 53\<close> and \<open>- 1074 \<le> e\<close>; an arithmetic operation gives the
  double nearest to its exact result, a tie going to the even \<open>n\<close>.

  \<open>round_half_even y\<close> is the integer nearest to \<open>y\<close>, ties to even. \<open>binade x\<close> is the
  exponent \<open>k\<close> with \<open>2 ^ k \<le> \<bar>x\<bar> < 2 ^ (k + 1)\<close>, and \<open>- 1022\<close> for the subnormal
  range below; \<open>ulp x\<close> is the distance between neighbouring doubles there, and
  \<open>round_double x\<close> the multiple of \<open>ulp x\<close> nearest to \<open>x\<close>: the double nearest to \<open>x\<close>,
  as long as that is finite.
\<close>

definition round_half_even :: "real \<Rightarrow> int" where
  "round_half_even y =
     (let f = \<lfloor>y\<rfloor>; r = y - of_int f
      in if r < 1 / 2 then f else if 1 / 2 < r then f + 1 else if even f then f else f + 1)"

definition binade :: "real \<Rightarrow> int" where
  "binade x = max \<lfloor>log 2 \<bar>x\<bar>\<rfloor> (- 1022)"

definition ulp :: "real \<Rightarrow> real" where
  "ulp x = 2 powr of_int (binade x - 52)"

definition round_double :: "real \<Rightarrow> real" where
  "round_double x = (if x = 0 then 0 else of_int (round_half_even (x / ulp x)) * ulp x)"

text \<open>
  The largest double is \<open>2 ^ 1024 - 2 ^ 971\<close>. An exact result of magnitude
  \<open>float_overflow = 2 ^ 1024 - 2 ^ 970\<close> (half a step above it) or more has no finite
  double nearest to it: a float operation then gives an infinity, and the true
  division of two integers raises \<^verbatim>\<open>OverflowError\<close>. \<open>float_result x\<close> is the value of a
  float operation whose exact result is \<open>x\<close>. NaN does not arise in the modelled code,
  and the two zeros are not told apart (in Python \<^verbatim>\<open>0.0 == -0.0\<close>).
\<close>

datatype pyfloat = Float real | PosInf | NegInf

definition float_overflow :: real where
  "float_overflow = 2 ^ 1024 - 2 ^ 970"

definition float_result :: "real \<Rightarrow> pyfloat" where
  "float_result x =
     (if float_overflow \<le> x then PosInf
      else if x \<le> - float_overflow then NegInf
      else Float (round_double x))"

text \<open>The product \<^verbatim>\<open>x * y\<close> of two finite floats.\<close>

definition float_mul :: "real \<Rightarrow> real \<Rightarrow> pyfloat" where
  "float_mul x y = float_result (x * y)"

text \<open>
  \<^verbatim>\<open>a / b\<close> on two Python integers: the double nearest to the exact quotient (Python
  rounds the quotient of the integers once, it does not convert the operands first);
  \<^verbatim>\<open>ZeroDivisionError\<close> when \<open>b = 0\<close>, \<^verbatim>\<open>OverflowError\<close> when the quotient is too large
  for a float. A returned value is a finite double.
\<close>

definition int_true_div :: "int \<Rightarrow> int \<Rightarrow> pyerr + real" where
  "int_true_div a b =
     (if b = 0 then Inl ZeroDivisionError
      else if float_overflow \<le> \<bar>real_of_int a / real_of_int b\<bar> then Inl OverflowError
      else Inr (round_double (real_of_int a / real_of_int b)))"

text \<open>The comparison \<^verbatim>\<open>x <= y\<close> of two floats.\<close>

fun float_le :: "pyfloat \<Rightarrow> pyfloat \<Rightarrow> bool" where
  "float_le (Float a) (Float b) = (a \<le> b)"
| "float_le NegInf y = True"
| "float_le x PosInf = True"
| "float_le x y = False"

section \<open>Protocol helpers (ilc_test_common.py)\<close>

definition CMD_START :: int where "CMD_START = 0x7E"
definition CMD_STOP :: int where "CMD_STOP = 0x7E"
definition SCB_ADDRESS :: int where "SCB_ADDRESS = 0x3D"
definition CMD_GET_SCB_DATA :: int where "CMD_GET_SCB_DATA = 0x01"

text \<open>
  \<^verbatim>\<open>build_command(can_addr, cmd_id, data=b'')\<close>. The three constructions that can
  raise are kept in the order in which Python evaluates them: the header bytes
  \<^verbatim>\<open>bytes([0x00, can_addr, cmd_id])\<close>, then (in the packet expression, left to right)
  \<^verbatim>\<open>bytes([CMD_START])\<close>, \<^verbatim>\<open>struct.pack('<H', length)\<close> and \<^verbatim>\<open>bytes([CMD_STOP])\<close>.
\<close>

definition build_command :: "int \<Rightarrow> int \<Rightarrow> bytes \<Rightarrow> pyerr + bytes" where
  "build_command can_addr cmd_id data =
     (case bytes_of_ints [0x00, can_addr, cmd_id] of
        Inl e \<Rightarrow> Inl e
      | Inr hdr \<Rightarrow>
          let payload = hdr @ data;
              length_field = int (length payload)
          in (case bytes_of_ints [CMD_START] of
                Inl e \<Rightarrow> Inl e
              | Inr start \<Rightarrow>
                  (case pack_H length_field of
                     Inl e \<Rightarrow> Inl e
                   | Inr len2 \<Rightarrow>
                       (case bytes_of_ints [CMD_STOP] of
                          Inl e \<Rightarrow> Inl e
                        | Inr stop \<Rightarrow> Inr (start @ len2 @ payload @ stop)))))"

text \<open>
  The dictionary \<^verbatim>\<open>parse_response\<close> returns, as a record (the keys \<^verbatim>\<open>'length'\<close> and
  \<^verbatim>\<open>'type'\<close> carry a suffix, since HOL has constants of those names).
\<close>

record response =
  length_field :: int
  type_field :: int
  can_addr :: int
  cmd_id :: int
  payload :: bytes
  raw :: bytes

text \<open>
  \<^verbatim>\<open>parse_response(data)\<close>: \<open>Inr None\<close> is the returned \<^verbatim>\<open>None\<close>, \<open>Inr (Some r)\<close> the
  returned dictionary, \<open>Inl e\<close> an exception escaping the function. The guards and the
  reads stand in the source's order.
\<close>

definition parse_response :: "bytes \<Rightarrow> pyerr + response option" where
  "parse_response data =
     (if length data < 6 then Inr None
      else
        (case py_index data 0 of Inl e \<Rightarrow> Inl e | Inr first \<Rightarrow>
         if uint first \<noteq> CMD_START then Inr None
         else
        (case py_index data (- 1) of Inl e \<Rightarrow> Inl e | Inr final \<Rightarrow>
         if uint final \<noteq> CMD_STOP then Inr None
         else
        (case unpack_H (py_slice data (Some 1) (Some 3)) of Inl e \<Rightarrow> Inl e | Inr len \<Rightarrow>
        (case py_index data 3 of Inl e \<Rightarrow> Inl e | Inr b3 \<Rightarrow>
        (case py_index data 4 of Inl e \<Rightarrow> Inl e | Inr b4 \<Rightarrow>
        (case py_index data 5 of Inl e \<Rightarrow> Inl e | Inr b5 \<Rightarrow>
           Inr (Some \<lparr> length_field = len,
                       type_field = uint b3,
                       can_addr = uint b4,
                       cmd_id = uint b5,
                       payload = (if length data > 7 then py_slice data (Some 6) (Some (- 1))
                                  else []),
                       raw = data \<rparr>))))))))"

section \<open>Test result tracking (ilc_test_common.py)\<close>

text \<open>
  Times are readings of one clock, counted in whole milliseconds: the source's
  \<^verbatim>\<open>time.time()\<close> and \<^verbatim>\<open>datetime.now()\<close> read it, and a duration such as the
  source's \<open>60.0\<close> seconds is \<open>60000\<close>. Durations are natural numbers, so the clock
  never runs backwards. The clock advances only in the calls that block: socket
  operations, joining worker threads, and \<^verbatim>\<open>time.sleep(d)\<close>, which advances it by
  \<open>d\<close> or more (the call suspends the thread for at least \<open>d\<close>).
\<close>

type_synonym time = nat

text \<open>The dataclass \<^verbatim>\<open>TestResult\<close>; the counters are Python integers.\<close>

record TestResult =
  test_name :: string
  start_time :: time
  end_time :: "time option"
  requests_sent :: int
  responses_received :: int
  errors :: "string list"
  timeouts :: int
  connection_failures :: int
  device_unresponsive_events :: int
  possible_crashes :: int

text \<open>The constructor call \<^verbatim>\<open>TestResult(test_name=..., start_time=...)\<close> with the
  dataclass defaults.\<close>

definition TestResult_init :: "string \<Rightarrow> time \<Rightarrow> TestResult" where
  "TestResult_init name t =
     \<lparr> test_name = name, start_time = t, end_time = None, requests_sent = 0,
       responses_received = 0, errors = [], timeouts = 0, connection_failures = 0,
       device_unresponsive_events = 0, possible_crashes = 0 \<rparr>"

text \<open>
  \<^verbatim>\<open>success_rate\<close>: \<^verbatim>\<open>0.0\<close> when no request was sent, else
  \<^verbatim>\<open>self.responses_received / self.requests_sent * 100\<close>: the true division of the two
  integers, which can raise, and the product of its result with the float \<open>100.0\<close>.
\<close>

definition success_rate :: "TestResult \<Rightarrow> pyerr + pyfloat" where
  "success_rate r =
     (if requests_sent r = 0 then Inr (Float 0.0)
      else
        (case int_true_div (responses_received r) (requests_sent r) of
           Inl e \<Rightarrow> Inl e
         | Inr q \<Rightarrow> Inr (float_mul q 100)))"





section \<open>The device and the clock\<close>

text \<open>
  Everything the code learns from outside comes through sockets, the clock and the
  interrupt handler. The environment \<open>env\<close> fixes what those calls give, as functions of
  the clock reading at which the code makes them:
  \<^item> \<open>probe t timeout\<close>: one call of \<^verbatim>\<open>check_device_alive\<close> started at \<open>t\<close> with socket
    timeout \<open>timeout\<close>: whether at least one byte came back, and how long the call took
    (connecting, sending and receiving; every exception is caught inside and gives
    \<open>False\<close>);
  \<^item> \<open>stop_flag t\<close>: the value of the global \<^verbatim>\<open>stop_flag\<close> read at \<open>t\<close>;
  \<^item> \<open>flood t duration num_sockets\<close>: the joined flood workers started at \<open>t\<close>: by how
    much they raised \<^verbatim>\<open>requests_sent\<close> and \<^verbatim>\<open>responses_received\<close>, and the time until
    the last worker was joined;
  \<^item> \<open>overflow_round t\<close>: one iteration of the connection-overflow loop: the number of
    sends that succeeded, and the time taken;
  \<^item> \<open>reconnect_round t\<close>: one iteration of the rapid-reconnect loop: whether the
    partial send succeeded, and the time taken;
  \<^item> \<open>stress t duration\<close>: the joined workers of the combined stress: by how much they
    raised \<^verbatim>\<open>requests_sent\<close>, and the time until the last worker was joined;
  \<^item> \<open>oversleep t d\<close>: by how much a call \<^verbatim>\<open>time.sleep(d)\<close> made at \<open>t\<close> overshoots
    \<open>d\<close> (the scheduler decides when the thread runs again).
  The worker threads write only the two counters named above; the thread that runs the
  crash check is the one that started and joined them.
\<close>

record env =
  probe :: "time \<Rightarrow> nat \<Rightarrow> bool \<times> nat"
  stop_flag :: "time \<Rightarrow> bool"
  flood :: "time \<Rightarrow> nat \<Rightarrow> nat \<Rightarrow> nat \<times> nat \<times> nat"
  overflow_round :: "time \<Rightarrow> nat \<times> nat"
  reconnect_round :: "time \<Rightarrow> bool \<times> nat"
  stress :: "time \<Rightarrow> nat \<Rightarrow> nat \<times> nat"
  oversleep :: "time \<Rightarrow> nat \<Rightarrow> nat"

text \<open>
  The state outside the tester object: the clock, and the trace of what the run did.
  The trace is a ghost field (no variable of the source holds it): \<open>Work name\<close> is
  appended where the body of attack \<open>name\<close> does its socket work (once for the joined
  workers of a threaded attack, once per iteration of a sequential attack loop), and
  \<open>Detected m\<close> where the source assigns \<^verbatim>\<open>self.crash_detected = True\<close> with
  \<^verbatim>\<open>self.crash_method = m\<close>.
\<close>

datatype event = Work string | Detected string

record world =
  now :: time
  trace :: "event list"

definition tick :: "nat \<Rightarrow> world \<Rightarrow> world" where
  "tick d w = w\<lparr>now := now w + d\<rparr>"

definition emit :: "event \<Rightarrow> world \<Rightarrow> world" where
  "emit ev w = w\<lparr>trace := trace w @ [ev]\<rparr>"

text \<open>\<^verbatim>\<open>time.sleep(d)\<close> for a duration \<open>d\<close>.\<close>

definition sleep :: "env \<Rightarrow> nat \<Rightarrow> world \<Rightarrow> world" where
  "sleep e d w = tick (d + oversleep e (now w) d) w"

section \<open>Device health check (ilc_test_common.py)\<close>

definition check_device_alive :: "env \<Rightarrow> nat \<Rightarrow> world \<Rightarrow> bool \<times> world" where
  "check_device_alive e timeout w =
     (case probe e (now w) timeout of (alive, d) \<Rightarrow> (alive, tick d w))"

text \<open>
  The loop of \<^verbatim>\<open>wait_for_device\<close>: \<^verbatim>\<open>while time.time() < end_time\<close>, probe with a
  2-second socket timeout, return \<^verbatim>\<open>True\<close> on an answer, else
  \<^verbatim>\<open>time.sleep(check_interval)\<close>. The counter \<^verbatim>\<open>attempts\<close> is only printed and is left
  out. The result \<open>None\<close> stands for a loop that never ends. The timeout and the
  interval are durations: natural numbers of milliseconds, the interval \<open>0\<close> included.
\<close>

partial_function (option) wait_loop :: "env \<Rightarrow> time \<Rightarrow> nat \<Rightarrow> world \<Rightarrow> (bool \<times> world) option" where
  "wait_loop e end_t check_interval w =
     (if now w < end_t then
        (case check_device_alive e 2000 w of (alive, w1) \<Rightarrow>
           if alive then Some (True, w1)
           else wait_loop e end_t check_interval (sleep e check_interval w1))
      else Some (False, w))"

definition wait_for_device :: "env \<Rightarrow> nat \<Rightarrow> nat \<Rightarrow> world \<Rightarrow> (bool \<times> world) option" where
  "wait_for_device e timeout check_interval w =
     wait_loop e (now w + timeout) check_interval w"

section \<open>The crash tester (test_crash.py)\<close>

record CrashTester =
  scb_ip :: string
  crash_detected :: bool
  crash_method :: "string option"
  result :: TestResult

definition CrashTester_init :: "string \<Rightarrow> time \<Rightarrow> CrashTester" where
  "CrashTester_init ip t =
     \<lparr> scb_ip = ip, crash_detected = False, crash_method = None,
       result = TestResult_init ''crash_test'' t \<rparr>"

text \<open>
  \<^verbatim>\<open>check_for_crash(method_name)\<close>. It returns the Boolean, the world and the tester
  after the call. The probe uses a 3-second socket timeout, the recovery wait a
  60-second budget and the default 2-second interval.
\<close>

definition check_for_crash ::
    "env \<Rightarrow> string \<Rightarrow> world \<times> CrashTester \<Rightarrow> (bool \<times> world \<times> CrashTester) option" where
  "check_for_crash e method_name ws =
     (case ws of (w, s) \<Rightarrow>
        (case check_device_alive e 3000 w of (alive, w1) \<Rightarrow>
           if \<not> alive then
             let s1 = s\<lparr>result := (result s)\<lparr>device_unresponsive_events :=
                          device_unresponsive_events (result s) + 1\<rparr>\<rparr>
             in (case wait_for_device e 60000 2000 w1 of
                   None \<Rightarrow> None
                 | Some (recovered, w2) \<Rightarrow>
                     if recovered then
                       Some (True, emit (Detected method_name) w2,
                             s1\<lparr>crash_detected := True,
                                crash_method := Some method_name,
                                result := (result s1)\<lparr>possible_crashes :=
                                   possible_crashes (result s1) + 1\<rparr>\<rparr>)
                     else
                       Some (True, emit (Detected (method_name @ '' (no recovery)'')) w2,
                             s1\<lparr>crash_detected := True,
                                crash_method := Some (method_name @ '' (no recovery)''),
                                result := (result s1)\<lparr>possible_crashes :=
                                   possible_crashes (result s1) + 1\<rparr>\<rparr>))
           else Some (False, w1, s)))"

text \<open>The counter updates the attack bodies make on \<^verbatim>\<open>self.result\<close>.\<close>

definition add_requests :: "nat \<Rightarrow> CrashTester \<Rightarrow> CrashTester" where
  "add_requests n s = s\<lparr>result := (result s)\<lparr>requests_sent := requests_sent (result s) + int n\<rparr>\<rparr>"

definition add_responses :: "nat \<Rightarrow> CrashTester \<Rightarrow> CrashTester" where
  "add_responses n s =
     s\<lparr>result := (result s)\<lparr>responses_received := responses_received (result s) + int n\<rparr>\<rparr>"

text \<open>\<^verbatim>\<open>attack_concurrent_flood\<close>: start the workers, join them, check for a crash.\<close>

definition attack_concurrent_flood ::
    "env \<Rightarrow> nat \<Rightarrow> nat \<Rightarrow> world \<times> CrashTester \<Rightarrow> (bool \<times> world \<times> CrashTester) option" where
  "attack_concurrent_flood e duration num_sockets ws =
     (case ws of (w, s) \<Rightarrow>
        (case flood e (now w) duration num_sockets of (sent, received, d) \<Rightarrow>
           check_for_crash e ''concurrent_flood''
             (tick d (emit (Work ''concurrent_flood'') w),
              add_responses received (add_requests sent s))))"

text \<open>
  The \<^verbatim>\<open>for i in range(iterations)\<close> loop of \<^verbatim>\<open>attack_connection_overflow\<close>, over the
  list of the indices still to run. The Boolean of the result says whether the loop
  left the function by \<^verbatim>\<open>return True\<close>; \<open>False\<close> is a \<^verbatim>\<open>break\<close> or the end of the range.
\<close>

fun overflow_loop ::
    "env \<Rightarrow> nat list \<Rightarrow> world \<times> CrashTester \<Rightarrow> (bool \<times> world \<times> CrashTester) option" where
  "overflow_loop e [] ws = Some (False, ws)"
| "overflow_loop e (i # rest) (w, s) =
     (if stop_flag e (now w) \<or> crash_detected s then Some (False, w, s)
      else
        (case overflow_round e (now w) of (sent, d) \<Rightarrow>
           let w1 = tick d (emit (Work ''connection_overflow'') w);
               s1 = add_requests sent s
           in if i > 0 \<and> i mod 10 = 0 then
                (case check_for_crash e ''connection_overflow'' (w1, s1) of
                   None \<Rightarrow> None
                 | Some (crashed, ws2) \<Rightarrow>
                     if crashed then Some (True, ws2) else overflow_loop e rest ws2)
              else overflow_loop e rest (w1, s1)))"

definition attack_connection_overflow ::
    "env \<Rightarrow> nat \<Rightarrow> world \<times> CrashTester \<Rightarrow> (bool \<times> world \<times> CrashTester) option" where
  "attack_connection_overflow e iterations ws =
     (case overflow_loop e [0..<iterations] ws of
        None \<Rightarrow> None
      | Some (returned, ws1) \<Rightarrow>
          if returned then Some (True, ws1) else check_for_crash e ''connection_overflow'' ws1)"

text \<open>The loop of \<^verbatim>\<open>attack_rapid_reconnect\<close>; the counter \<^verbatim>\<open>success\<close> is only printed.\<close>

fun reconnect_loop ::
    "env \<Rightarrow> nat list \<Rightarrow> world \<times> CrashTester \<Rightarrow> (bool \<times> world \<times> CrashTester) option" where
  "reconnect_loop e [] ws = Some (False, ws)"
| "reconnect_loop e (i # rest) (w, s) =
     (if stop_flag e (now w) \<or> crash_detected s then Some (False, w, s)
      else
        (case reconnect_round e (now w) of (sent, d) \<Rightarrow>
           let w1 = tick d (emit (Work ''rapid_reconnect'') w);
               s1 = (if sent then add_requests 1 s else s)
           in if i > 0 \<and> i mod 25 = 0 then
                (case check_for_crash e ''rapid_reconnect'' (w1, s1) of
                   None \<Rightarrow> None
                 | Some (crashed, ws2) \<Rightarrow>
                     if crashed then Some (True, ws2) else reconnect_loop e rest ws2)
              else reconnect_loop e rest (w1, s1)))"

definition attack_rapid_reconnect ::
    "env \<Rightarrow> nat \<Rightarrow> world \<times> CrashTester \<Rightarrow> (bool \<times> world \<times> CrashTester) option" where
  "attack_rapid_reconnect e iterations ws =
     (case reconnect_loop e [0..<iterations] ws of
        None \<Rightarrow> None
      | Some (returned, ws1) \<Rightarrow>
          if returned then Some (True, ws1) else check_for_crash e ''rapid_reconnect'' ws1)"

text \<open>
  \<^verbatim>\<open>attack_combined_stress\<close>. Each of the four workers loops
  \<^verbatim>\<open>while time.time() < end_time and not stop_flag and not self.crash_detected\<close>; the
  flag cannot change while they run, so with the flag set no worker enters its loop.
\<close>

definition attack_combined_stress ::
    "env \<Rightarrow> nat \<Rightarrow> world \<times> CrashTester \<Rightarrow> (bool \<times> world \<times> CrashTester) option" where
  "attack_combined_stress e duration ws =
     (case ws of (w, s) \<Rightarrow>
        if crash_detected s then check_for_crash e ''combined_stress'' (w, s)
        else
          (case stress e (now w) duration of (sent, d) \<Rightarrow>
             check_for_crash e ''combined_stress''
               (tick d (emit (Work ''combined_stress'') w), add_requests sent s)))"

text \<open>The entries of \<^verbatim>\<open>attack_sequence\<close> in \<^verbatim>\<open>run_crash_test\<close>, with their arguments.\<close>

datatype attack =
    ConcurrentFlood nat nat
  | ConnectionOverflow nat
  | RapidReconnect nat
  | CombinedStress nat

fun run_attack ::
    "env \<Rightarrow> attack \<Rightarrow> world \<times> CrashTester \<Rightarrow> (bool \<times> world \<times> CrashTester) option" where
  "run_attack e (ConcurrentFlood duration num_sockets) ws =
     attack_concurrent_flood e duration num_sockets ws"
| "run_attack e (ConnectionOverflow iterations) ws = attack_connection_overflow e iterations ws"
| "run_attack e (RapidReconnect iterations) ws = attack_rapid_reconnect e iterations ws"
| "run_attack e (CombinedStress duration) ws = attack_combined_stress e duration ws"

definition attack_sequence :: "attack list" where
  "attack_sequence =
     [ConcurrentFlood 10000 5, ConnectionOverflow 30, RapidReconnect 50, CombinedStress 15000]"

text \<open>The \<^verbatim>\<open>for attack_func in attack_sequence\<close> loop of one round.\<close>

fun attack_round ::
    "env \<Rightarrow> time \<Rightarrow> attack list \<Rightarrow> world \<times> CrashTester \<Rightarrow> (world \<times> CrashTester) option" where
  "attack_round e end_t [] ws = Some ws"
| "attack_round e end_t (a # rest) (w, s) =
     (if stop_flag e (now w) \<or> crash_detected s \<or> now w \<ge> end_t then Some (w, s)
      else
        (case run_attack e a (w, s) of
           None \<Rightarrow> None
         | Some (crashed, ws1) \<Rightarrow>
             if crashed then Some ws1 else attack_round e end_t rest ws1))"

text \<open>
  The \<^verbatim>\<open>while\<close> loop of \<^verbatim>\<open>run_crash_test\<close>; \<^verbatim>\<open>round_num\<close> and \<^verbatim>\<open>remaining\<close> are only
  printed. \<open>None\<close> stands for a loop that never ends.
\<close>

partial_function (option) round_loop ::
    "env \<Rightarrow> time \<Rightarrow> world \<times> CrashTester \<Rightarrow> (world \<times> CrashTester) option" where
  "round_loop e end_t ws =
     (if now (fst ws) < end_t \<and> \<not> stop_flag e (now (fst ws)) \<and> \<not> crash_detected (snd ws) then
        (case attack_round e end_t attack_sequence ws of
           None \<Rightarrow> None
         | Some (w1, s1) \<Rightarrow>
             round_loop e end_t
               (if \<not> crash_detected s1 then (sleep e 2000 w1, s1) else (w1, s1)))
      else Some ws)"

text \<open>
  \<^verbatim>\<open>run_crash_test(scb_ip, duration)\<close>: the first component of the result is the
  returned value (\<open>None\<close> when the device does not answer the first probe, else the
  tester's result with its end time set). The tester is local to the function; the
  model returns it as well, so that its fields can be stated after the run.
\<close>

definition run_crash_test ::
    "env \<Rightarrow> string \<Rightarrow> nat \<Rightarrow> world \<Rightarrow> (TestResult option \<times> CrashTester option \<times> world) option" where
  "run_crash_test e ip duration w =
     (case check_device_alive e 3000 w of (alive, w1) \<Rightarrow>
        if \<not> alive then Some (None, None, w1)
        else
          let tester = CrashTester_init ip (now w1);
              end_t = now w1 + duration
          in (case round_loop e end_t (w1, tester) of
                None \<Rightarrow> None
              | Some (w2, s2) \<Rightarrow>
                  let s3 = s2\<lparr>result := (result s2)\<lparr>end_time := Some (now w2)\<rparr>\<rparr>
                  in Some (Some (result s3), Some s3, w2)))"

text \<open>Nothing follows a detection: no event of a trace but its last is \<open>Detected\<close>.\<close>

fun is_detection :: "event \<Rightarrow> bool" where
  "is_detection (Detected m) = True"
| "is_detection (Work n) = False"

definition detection_last :: "event list \<Rightarrow> bool" where
  "detection_last tr = (\<not> list_ex is_detection (butlast tr))"

section \<open>Invariant and test devices\<close>

text \<open>
  The tester and the trace agree: while no crash is detected the trace holds no
  detection; once one is detected, the detection is the last event of the trace and
  the only one.
\<close>

definition consistent :: "world \<times> CrashTester \<Rightarrow> bool" where
  "consistent ws =
     (if crash_detected (snd ws) then
        trace (fst ws) \<noteq> [] \<and> is_detection (last (trace (fst ws))) \<and>
        detection_last (trace (fst ws))
      else \<not> list_ex is_detection (trace (fst ws)))"

text \<open>
  A device that never answers: every probe fails after \<open>d\<close> milliseconds, no send of
  an attack succeeds, the threaded attacks run for their whole duration, and no sleep
  overshoots.
\<close>

definition silent_device :: "nat \<Rightarrow> env" where
  "silent_device d =
     \<lparr> probe = (\<lambda>t timeout. (False, d)),
       stop_flag = (\<lambda>t. False),
       flood = (\<lambda>t duration num_sockets. (0, 0, duration)),
       overflow_round = (\<lambda>t. (0, 0)),
       reconnect_round = (\<lambda>t. (False, 0)),
       stress = (\<lambda>t duration. (0, duration)),
       oversleep = (\<lambda>t d. 0) \<rparr>"

text \<open>
  A device that answers within 5 milliseconds, except from clock reading 1000 up to
  30000, when it is down and every probe runs into its socket timeout.
\<close>

definition rebooting_device :: env where
  "rebooting_device =
     \<lparr> probe = (\<lambda>t timeout. if 1000 \<le> t \<and> t < 30000 then (False, timeout) else (True, 5)),
       stop_flag = (\<lambda>t. False),
       flood = (\<lambda>t duration num_sockets. (100, 40, duration)),
       overflow_round = (\<lambda>t. (8, 20)),
       reconnect_round = (\<lambda>t. (True, 10)),
       stress = (\<lambda>t duration. (50, duration)),
       oversleep = (\<lambda>t d. 0) \<rparr>"

section \<open>Lemmas on the Python sequence operations\<close>

lemma py_index_nonneg:
  "0 \<le> i \<Longrightarrow> nat i < length xs \<Longrightarrow> py_index xs i = Inr (xs ! nat i)"
  by (auto simp: py_index_def Let_def)

lemma py_index_minus_one: "xs \<noteq> [] \<Longrightarrow> py_index xs (- 1) = Inr (last xs)"
  by (auto simp: py_index_def Let_def last_conv_nth nat_diff_distrib')

lemma py_slice_1_3: "3 \<le> length xs \<Longrightarrow> py_slice xs (Some 1) (Some 3) = [xs ! 1, xs ! 2]"
proof -
  assume "3 \<le> length xs"
  then obtain a xs1 where 1: "xs = a # xs1" and l1: "2 \<le> length xs1"
    by (cases xs) auto
  then obtain b xs2 where 2: "xs1 = b # xs2" and l2: "1 \<le> length xs2"
    by (cases xs1) auto
  then obtain c xs3 where 3: "xs2 = c # xs3"
    by (cases xs2) auto
  show ?thesis
    by (simp add: 1 2 3 py_slice_def py_clamp_def Let_def)
qed

lemma py_slice_6_minus_one: "py_slice xs (Some 6) (Some (- 1)) = butlast (drop 6 xs)"
proof -
  have "py_slice xs (Some 6) (Some (- 1)) = take (length xs - 7) (drop 6 xs)"
    by (auto simp: py_slice_def py_clamp_def Let_def min_def max_def nat_diff_distrib')
  then show ?thesis
    by (simp add: butlast_conv_take)
qed

lemma butlast_drop_nth: "butlast (drop 6 d) = map ((!) d) [6..<length d - 1]"
  by (rule nth_equalityI) (auto simp: nth_butlast)


section \<open>Lemmas on the rounding of floats\<close>

text \<open>Rounding to the nearest integer is monotone and odd.\<close>

lemma rhe_cases: "round_half_even y = \<lfloor>y\<rfloor> \<or> round_half_even y = \<lfloor>y\<rfloor> + 1"
  by (simp add: round_half_even_def Let_def)

lemma rhe_int [simp]: "round_half_even (of_int n) = n"
  by (simp add: round_half_even_def Let_def)

lemma rhe_mono: "y \<le> z \<Longrightarrow> round_half_even y \<le> round_half_even z"
proof -
  assume yz: "y \<le> z"
  have fl: "\<lfloor>y\<rfloor> \<le> \<lfloor>z\<rfloor>" using yz by (rule floor_mono)
  show ?thesis
  proof (cases "\<lfloor>y\<rfloor> = \<lfloor>z\<rfloor>")
    case True
    then show ?thesis
      using yz by (auto simp: round_half_even_def Let_def)
  next
    case False
    with fl have "\<lfloor>y\<rfloor> + 1 \<le> \<lfloor>z\<rfloor>" by simp
    then show ?thesis
      using rhe_cases [of y] rhe_cases [of z] by auto
  qed
qed

lemma rhe_minus: "round_half_even (- y) = - round_half_even y"
proof (cases "y \<in> \<int>")
  case True
  then obtain n where "y = of_int n" by (auto elim: Ints_cases)
  then have "- y = of_int (- n)" by simp
  then show ?thesis using \<open>y = of_int n\<close> by (simp only: rhe_int)
next
  case False
  have ne: "y \<noteq> of_int \<lfloor>y\<rfloor>"
  proof
    assume "y = of_int \<lfloor>y\<rfloor>"
    then have "y \<in> \<int>" by (metis Ints_of_int)
    with False show False by simp
  qed
  then have fl: "\<lfloor>- y\<rfloor> = - \<lfloor>y\<rfloor> - 1"
    by (simp add: floor_minus ceiling_altdef)
  show ?thesis
    by (auto simp: round_half_even_def Let_def fl)
qed

text \<open>Rounding to the nearest double is odd, monotone, and exact on doubles.\<close>

lemma ulp_pos [simp]: "0 < ulp x"
  by (simp add: ulp_def)

lemma ulp_nonneg: "0 \<le> ulp x"
  by (simp add: ulp_def)

lemma ulp_minus [simp]: "ulp (- x) = ulp x"
  by (simp add: ulp_def binade_def)

lemma round_double_minus: "round_double (- x) = - round_double x"
  by (simp add: round_double_def rhe_minus)

lemma binade_eq:
  assumes "2 powr of_int k \<le> \<bar>x\<bar>" "\<bar>x\<bar> < 2 powr of_int (k + 1)" "- 1022 \<le> k"
  shows "binade x = k"
proof -
  have "(0 :: real) < 2 powr of_int k"
    by simp
  with assms(1) have pos: "0 < \<bar>x\<bar>"
    by linarith
  have "\<lfloor>log 2 \<bar>x\<bar>\<rfloor> = k"
    using assms(1,2) pos by (simp add: floor_log_eq_powr_iff)
  with assms(3) show ?thesis by (simp add: binade_def)
qed

lemma binade_mono:
  assumes "0 < x" "x \<le> y"
  shows "binade x \<le> binade y"
proof -
  have "log 2 \<bar>x\<bar> \<le> log 2 \<bar>y\<bar>"
    using assms by simp
  then have "\<lfloor>log 2 \<bar>x\<bar>\<rfloor> \<le> \<lfloor>log 2 \<bar>y\<bar>\<rfloor>"
    by (rule floor_mono)
  then show ?thesis by (simp add: binade_def)
qed

lemma below_next_binade:
  assumes "0 < x"
  shows "x < 2 powr of_int (binade x + 1)"
proof -
  have "log 2 x < of_int (\<lfloor>log 2 x\<rfloor> + 1)"
    by linarith
  also have "\<dots> \<le> of_int (binade x + 1)"
    using assms by (simp add: binade_def)
  finally have "log 2 x < of_int (binade x + 1)" .
  then have "2 powr log 2 x < 2 powr of_int (binade x + 1)"
    by simp
  then show ?thesis
    using assms by simp
qed

lemma above_binade:
  assumes "0 < x" "- 1022 \<le> \<lfloor>log 2 x\<rfloor>"
  shows "2 powr of_int (binade x) \<le> x"
proof -
  have b: "binade x = \<lfloor>log 2 x\<rfloor>"
    using assms by (simp add: binade_def)
  have "of_int \<lfloor>log 2 x\<rfloor> \<le> log 2 x"
    by simp
  then have "2 powr of_int \<lfloor>log 2 x\<rfloor> \<le> 2 powr log 2 x"
    by simp
  then show ?thesis
    using assms b by simp
qed

lemma round_double_upper:
  assumes "0 < x"
  shows "round_double x \<le> 2 powr of_int (binade x + 1)"
proof -
  have "x / ulp x \<le> 2 powr of_int (binade x + 1) / ulp x"
    using below_next_binade [OF assms] by (intro divide_right_mono ulp_nonneg) simp
  also have "2 powr of_int (binade x + 1) / ulp x = 2 powr 53"
    by (simp add: ulp_def powr_diff [symmetric])
  also have "(2 :: real) powr 53 = of_int (2 ^ 53)"
    by simp
  finally have "round_half_even (x / ulp x) \<le> round_half_even (of_int (2 ^ 53))"
    by (rule rhe_mono)
  then have "round_half_even (x / ulp x) \<le> 2 ^ 53"
    by (simp only: rhe_int)
  then have "of_int (round_half_even (x / ulp x)) * ulp x \<le> of_int (2 ^ 53) * ulp x"
    by (simp add: mult_right_mono)
  also have "of_int (2 ^ 53) * ulp x = 2 powr 53 * ulp x"
    by simp
  also have "\<dots> = 2 powr of_int (binade x + 1)"
    unfolding ulp_def powr_add [symmetric] by (simp add: algebra_simps)
  finally show ?thesis
    using assms by (simp add: round_double_def)
qed

lemma round_double_lower:
  assumes "0 < x" "- 1022 \<le> \<lfloor>log 2 x\<rfloor>"
  shows "2 powr of_int (binade x) \<le> round_double x"
proof -
  have "2 powr of_int (binade x) / ulp x \<le> x / ulp x"
    using above_binade [OF assms] by (intro divide_right_mono ulp_nonneg)
  moreover have "2 powr of_int (binade x) / ulp x = 2 powr 52"
    by (simp add: ulp_def powr_diff [symmetric])
  moreover have "(2 :: real) powr 52 = of_int (2 ^ 52)"
    by simp
  ultimately have "round_half_even (of_int (2 ^ 52)) \<le> round_half_even (x / ulp x)"
    using rhe_mono by metis
  then have "2 ^ 52 \<le> round_half_even (x / ulp x)"
    by (simp only: rhe_int)
  then have le: "(of_int (2 ^ 52) :: real) \<le> of_int (round_half_even (x / ulp x))"
    by (simp only: of_int_le_iff)
  have "2 powr of_int (binade x) = 2 powr 52 * ulp x"
    unfolding ulp_def powr_add [symmetric] by (simp add: algebra_simps)
  also have "\<dots> = of_int (2 ^ 52) * ulp x"
    by simp
  also have "\<dots> \<le> of_int (round_half_even (x / ulp x)) * ulp x"
    using le by (intro mult_right_mono ulp_nonneg)
  also have "\<dots> = round_double x"
    using assms(1) by (simp add: round_double_def)
  finally show ?thesis .
qed

lemma round_double_nonneg:
  assumes "0 \<le> x"
  shows "0 \<le> round_double x"
proof (cases "x = 0")
  case True
  then show ?thesis by (simp add: round_double_def)
next
  case False
  with assms have "0 \<le> x / ulp x" by (intro divide_nonneg_nonneg ulp_nonneg)
  then have "round_half_even 0 \<le> round_half_even (x / ulp x)"
    by (rule rhe_mono)
  moreover have "round_half_even 0 = 0"
    using rhe_int [of 0] by simp
  ultimately show ?thesis
    using False by (simp add: round_double_def mult_nonneg_nonneg ulp_nonneg)
qed

lemma round_double_mono_pos:
  assumes "0 < x" "x \<le> y"
  shows "round_double x \<le> round_double y"
proof (cases "binade x = binade y")
  case True
  then have u: "ulp x = ulp y" by (simp add: ulp_def)
  have "x / ulp y \<le> y / ulp y"
    using assms(2) by (intro divide_right_mono ulp_nonneg)
  then have "round_half_even (x / ulp y) \<le> round_half_even (y / ulp y)"
    by (rule rhe_mono)
  then have "of_int (round_half_even (x / ulp y)) * ulp y \<le>
             of_int (round_half_even (y / ulp y)) * ulp y"
    by (simp add: mult_right_mono)
  then show ?thesis
    using assms u by (simp add: round_double_def)
next
  case False
  with binade_mono [OF assms] have lt: "binade x + 1 \<le> binade y" by simp
  have ypos: "0 < y" using assms by simp
  have "- 1022 < binade y"
    using lt by (simp add: binade_def)
  then have normal: "- 1022 \<le> \<lfloor>log 2 y\<rfloor>"
    using ypos by (simp add: binade_def max_def split: if_splits)
  have "round_double x \<le> 2 powr of_int (binade x + 1)"
    by (rule round_double_upper [OF assms(1)])
  also have "\<dots> \<le> 2 powr of_int (binade y)"
    using lt by simp
  also have "\<dots> \<le> round_double y"
    by (rule round_double_lower [OF ypos normal])
  finally show ?thesis .
qed

lemma round_double_mono:
  assumes "x \<le> y"
  shows "round_double x \<le> round_double y"
proof -
  consider "0 < x" | "x \<le> 0" "0 \<le> y" | "y < 0"
    using assms by linarith
  then show ?thesis
  proof cases
    case 1
    then show ?thesis using assms by (rule round_double_mono_pos)
  next
    case 2
    have "round_double x = - round_double (- x)"
      using round_double_minus [of "- x"] by simp
    moreover have "0 \<le> round_double (- x)"
      using 2 by (simp add: round_double_nonneg)
    moreover have "0 \<le> round_double y"
      using 2 by (simp add: round_double_nonneg)
    ultimately show ?thesis by simp
  next
    case 3
    have "round_double (- y) \<le> round_double (- x)"
      using 3 assms by (intro round_double_mono_pos) simp_all
    then show ?thesis
      by (simp add: round_double_minus)
  qed
qed

lemma round_double_exact:
  assumes "x / ulp x \<in> \<int>"
  shows "round_double x = x"
proof -
  from assms obtain n where n: "x / ulp x = of_int n" by (auto elim: Ints_cases)
  have "ulp x \<noteq> 0"
    by (simp add: ulp_def)
  with n have x: "of_int n * ulp x = x"
    by (simp add: field_simps)
  have "round_half_even (x / ulp x) = n"
    by (simp only: n rhe_int)
  with x show ?thesis by (simp add: round_double_def)
qed

lemma round_double_dyadic:
  assumes "2 powr of_int k \<le> \<bar>x\<bar>" "\<bar>x\<bar> < 2 powr of_int (k + 1)" "- 1022 \<le> k"
    and "x * 2 powr of_int (52 - k) \<in> \<int>"
  shows "round_double x = x"
proof -
  have "binade x = k" using assms(1-3) by (rule binade_eq)
  then have "x / ulp x = x * 2 powr of_int (52 - k)"
    by (simp add: ulp_def powr_diff field_simps)
  with assms(4) show ?thesis by (simp add: round_double_exact)
qed

lemma rd_1: "round_double 1 = 1"
  by (rule round_double_dyadic [where k = 0]) simp_all

lemma rd_2: "round_double 2 = 2"
  by (rule round_double_dyadic [where k = 1]) simp_all

lemma rd_100: "round_double 100 = 100"
  by (rule round_double_dyadic [where k = 6]) simp_all

lemma rd_200: "round_double 200 = 200"
  by (rule round_double_dyadic [where k = 7]) simp_all

lemma rd_half: "round_double (1 / 2) = 1 / 2"
  by (rule round_double_dyadic [where k = "- 1"]) (simp_all add: powr_minus)


text \<open>The double nearest to a number that is not a double.\<close>

lemma rhe_near:
  assumes "\<bar>y - of_int n\<bar> < 1 / 2"
  shows "round_half_even y = n"
proof (cases "of_int n \<le> y")
  case True
  with assms have "\<lfloor>y\<rfloor> = n" by (intro floor_unique) simp_all
  with assms True show ?thesis by (simp add: round_half_even_def Let_def)
next
  case False
  with assms have "\<lfloor>y\<rfloor> = n - 1" by (intro floor_unique) simp_all
  with assms False show ?thesis by (simp add: round_half_even_def Let_def)
qed

lemma round_double_near:
  assumes "2 powr of_int k \<le> \<bar>x\<bar>" "\<bar>x\<bar> < 2 powr of_int (k + 1)" "- 1022 \<le> k"
    and "\<bar>x * 2 powr of_int (52 - k) - of_int n\<bar> < 1 / 2"
  shows "round_double x = of_int n * 2 powr of_int (k - 52)"
proof -
  have b: "binade x = k" using assms(1-3) by (rule binade_eq)
  have "(0 :: real) < 2 powr of_int k" by simp
  with assms(1) have nz: "x \<noteq> 0" by auto
  have "x / ulp x = x * 2 powr of_int (52 - k)"
    using b by (simp add: ulp_def powr_diff field_simps)
  with assms(4) have "round_half_even (x / ulp x) = n"
    by (simp add: rhe_near)
  with nz b show ?thesis
    by (simp add: round_double_def ulp_def)
qed

lemma rd_29_100: "round_double (29 / 100) = 5224175567749775 / 2 ^ 54"
  using round_double_near [where x = "29 / 100" and k = "- 2" and n = 5224175567749775]
  by (simp add: powr_minus)

lemma rd_29: "round_double (5224175567749775 / 2 ^ 54 * 100) = 8162774324609023 / 2 ^ 48"
proof -
  have "round_double (5224175567749775 / 2 ^ 54 * 100) =
          of_int 8162774324609023 * 2 powr of_int (4 - 52)"
    by (rule round_double_near) simp_all
  then show ?thesis
    by (simp add: powr_minus)
qed

lemma rd_m1: "round_double (- 1) = - 1"
  by (simp add: round_double_minus rd_1)

lemma rd_m100: "round_double (- 100) = - 100"
  by (simp add: round_double_minus rd_100)

lemma float_overflow_pos: "100 < float_overflow"
  by (simp add: float_overflow_def)

lemma float_result_mono: "x \<le> y \<Longrightarrow> float_le (float_result x) (float_result y)"
  using float_overflow_pos by (auto simp: float_result_def round_double_mono)

lemma round_double_0: "round_double 0 = 0"
  by (simp add: round_double_def)


lemma round_double_unit:
  assumes "0 \<le> x" "x \<le> 1"
  shows "0 \<le> round_double x \<and> round_double x \<le> 1"
  using round_double_mono [OF assms(1)] round_double_mono [OF assms(2)]
  by (simp add: round_double_0 rd_1)

lemma round_double_percent:
  assumes "0 \<le> x" "x \<le> 100"
  shows "0 \<le> round_double x \<and> round_double x \<le> 100"
  using round_double_mono [OF assms(1)] round_double_mono [OF assms(2)]
  by (simp add: round_double_0 rd_100)

section \<open>The frame codec\<close>

lemma build_command_cases:
  "build_command a c p =
     (if 0 \<le> a \<and> a \<le> 255 \<and> 0 \<le> c \<and> c \<le> 255 then
        if length p \<le> 65532 then
          Inr ([0x7E, word_of_int ((3 + int (length p)) mod 256),
                word_of_int ((3 + int (length p)) div 256),
                0x00, word_of_int a, word_of_int c] @ p @ [0x7E])
        else Inl StructError
      else Inl ValueError)"
  by (auto simp add: build_command_def bytes_of_ints_def pack_H_def CMD_START_def CMD_STOP_def
      Let_def)

text \<open>
  The frames the health check and the attacks send are built without an exception:
  the probe \<^verbatim>\<open>build_command(SCB_ADDRESS, CMD_GET_SCB_DATA)\<close> and the oversized command
  of the combined stress, with its payload of 1500 bytes.
\<close>

lemma probe_command:
  "build_command SCB_ADDRESS CMD_GET_SCB_DATA [] =
     Inr [0x7E, 0x03, 0x00, 0x00, 0x3D, 0x01, 0x7E]"
  by (simp add: build_command_cases SCB_ADDRESS_def CMD_GET_SCB_DATA_def)

lemma large_command:
  "\<exists>frame. build_command SCB_ADDRESS CMD_GET_SCB_DATA (replicate 1500 0xAA) = Inr frame \<and>
     length frame = 1507"
  by (simp add: build_command_cases SCB_ADDRESS_def CMD_GET_SCB_DATA_def)

lemma le16_roundtrip:
  "0 \<le> n \<Longrightarrow> n \<le> 65535 \<Longrightarrow>
   uint (word_of_int (n mod 256) :: byte) + 256 * uint (word_of_int (n div 256) :: byte) = n"
  by (simp add: uint_word_of_int)

lemma parse_response_shape:
  assumes "6 \<le> length d" "d ! 0 = 0x7E" "last d = 0x7E"
  shows "parse_response d =
     Inr (Some \<lparr> length_field = uint (d ! 1) + 256 * uint (d ! 2),
                 type_field = uint (d ! 3), can_addr = uint (d ! 4), cmd_id = uint (d ! 5),
                 payload = butlast (drop 6 d), raw = d \<rparr>)"
proof -
  from assms have ne: "d \<noteq> []" by auto
  have short: "length d \<le> 7 \<Longrightarrow> butlast (drop 6 d) = []"
    by (simp add: butlast_conv_take)
  show ?thesis
    using assms ne short
    by (simp add: parse_response_def py_index_minus_one py_index_nonneg py_slice_1_3
        py_slice_6_minus_one unpack_H_def CMD_START_def CMD_STOP_def)
qed

lemma uint_marker: "uint (b :: byte) = 0x7E \<longleftrightarrow> b = 0x7E"
proof
  assume "uint b = 0x7E"
  then have "word_of_int (uint b) = (word_of_int 0x7E :: byte)" by simp
  then show "b = 0x7E" by simp
next
  assume "b = 0x7E"
  then show "uint b = 0x7E" by simp
qed

lemma parse_response_none:
  "parse_response d = Inr None \<longleftrightarrow> (length d < 6 \<or> d ! 0 \<noteq> 0x7E \<or> last d \<noteq> 0x7E)"
proof (cases "length d < 6")
  case True
  then show ?thesis by (simp add: parse_response_def)
next
  case False
  then have ne: "d \<noteq> []" by auto
  show ?thesis
  proof (cases "d ! 0 = 0x7E \<and> last d = 0x7E")
    case True
    with False show ?thesis by (simp add: parse_response_shape)
  next
    case bad: False
    with False ne show ?thesis
      by (auto simp: parse_response_def py_index_minus_one py_index_nonneg
          CMD_START_def CMD_STOP_def uint_marker)
  qed
qed

text \<open>
  C1. Round trip: for an address \<open>a\<close> and a command id \<open>c\<close> in \<open>0..255\<close> and a payload
  \<open>p\<close> of at most 60000 bytes, \<open>build_command a c p\<close> returns a frame, and
  \<open>parse_response\<close> of that frame returns a dictionary with type 0, \<open>can_addr = a\<close>,
  \<open>cmd_id = c\<close> and \<open>payload = p\<close> (its length field is \<open>3 + len p\<close> and its raw bytes are
  the frame).
\<close>

theorem encode_decode_roundtrip:
  assumes "0 \<le> a" "a \<le> 255" "0 \<le> c" "c \<le> 255" "length p \<le> 60000"
  shows "\<exists>frame r. build_command a c p = Inr frame \<and> parse_response frame = Inr (Some r) \<and>
           type_field r = 0 \<and> can_addr r = a \<and> cmd_id r = c \<and> payload r = p \<and>
           length_field r = 3 + int (length p) \<and> raw r = frame"
proof -
  define L where "L = 3 + int (length p)"
  define frame where
    "frame = [0x7E, word_of_int (L mod 256), word_of_int (L div 256),
              0x00, word_of_int a, word_of_int c] @ p @ [0x7E :: byte]"
  have L: "0 \<le> L" "L \<le> 65535"
    using assms by (simp_all add: L_def)
  have enc: "build_command a c p = Inr frame"
    using assms by (simp add: build_command_cases frame_def L_def)
  have shape: "6 \<le> length frame" "frame ! 0 = 0x7E" "last frame = 0x7E"
    by (simp_all add: frame_def)
  have dec: "parse_response frame =
     Inr (Some \<lparr> length_field = uint (frame ! 1) + 256 * uint (frame ! 2),
                 type_field = uint (frame ! 3), can_addr = uint (frame ! 4),
                 cmd_id = uint (frame ! 5), payload = butlast (drop 6 frame), raw = frame \<rparr>)"
    by (rule parse_response_shape [OF shape])
  have f1: "uint (frame ! 1) + 256 * uint (frame ! 2) = L"
    using le16_roundtrip [OF L] by (simp add: frame_def)
  have f3: "uint (frame ! 3) = 0" by (simp add: frame_def)
  have f4: "uint (frame ! 4) = a"
    using assms by (simp add: frame_def uint_word_of_int)
  have f5: "uint (frame ! 5) = c"
    using assms by (simp add: frame_def uint_word_of_int)
  have f6: "butlast (drop 6 frame) = p" by (simp add: frame_def)
  show ?thesis
    using enc dec f1 f3 f4 f5 f6 by (simp add: L_def)
qed

theorem encode_decode_roundtrip_witness:
  "\<exists>frame r. build_command 61 1 [0xAA, 0xBB] = Inr frame \<and>
     parse_response frame = Inr (Some r) \<and>
     type_field r = 0 \<and> can_addr r = 61 \<and> cmd_id r = 1 \<and> payload r = [0xAA, 0xBB] \<and>
     length_field r = 5 \<and> raw r = frame"
  using encode_decode_roundtrip [of 61 1 "[0xAA, 0xBB]"] by simp

text \<open>
  C5. \<open>parse_response\<close> returns \<^verbatim>\<open>None\<close> (no dictionary at all, and no exception) for
  every input shorter than 6 bytes, and for every input whose first byte is not \<open>0x7E\<close>
  or whose last byte is not \<open>0x7E\<close>, whatever the other bytes are.
\<close>

theorem parse_response_malformed:
  assumes "length d < 6 \<or> hd d \<noteq> 0x7E \<or> last d \<noteq> 0x7E"
  shows "parse_response d = Inr None"
proof (cases "length d < 6")
  case True
  then show ?thesis by (simp add: parse_response_none)
next
  case False
  then have "d \<noteq> []" by auto
  then have "hd d = d ! 0" by (simp add: hd_conv_nth)
  with assms False show ?thesis by (simp add: parse_response_none)
qed

theorem parse_response_malformed_witness:
  "parse_response [0x7E, 0x03, 0x00, 0x00, 0x7E] = Inr None \<and>
   parse_response [0x7D, 0x03, 0x00, 0x00, 0x3D, 0x01, 0x7E] = Inr None \<and>
   parse_response [0x7E, 0x03, 0x00, 0x00, 0x3D, 0x01, 0x7F] = Inr None"
  using parse_response_malformed [of "[0x7E, 0x03, 0x00, 0x00, 0x7E]"]
    parse_response_malformed [of "[0x7D, 0x03, 0x00, 0x00, 0x3D, 0x01, 0x7E]"]
    parse_response_malformed [of "[0x7E, 0x03, 0x00, 0x00, 0x3D, 0x01, 0x7F]"]
  by simp

text \<open>
  C6, as the claim states it, fails: \<open>build_command\<close> raises \<^verbatim>\<open>struct.error\<close> for a
  payload of 65533 bytes (the length 65536 does not fit the 16-bit field), and
  \<^verbatim>\<open>ValueError\<close> for an address or a command id outside \<open>0..255\<close>.
\<close>

theorem build_command_raises:
  "build_command 0x3D 0x01 (replicate 65533 0xAA) = Inl StructError \<and>
   build_command 256 0x01 [] = Inl ValueError \<and>
   build_command 0x3D (- 1) [] = Inl ValueError"
  by (simp add: build_command_cases)

text \<open>
  C6, amended. For an address and a command id in \<open>0..255\<close> and a payload of at most
  65532 bytes, \<open>build_command\<close> returns the frame \<open>0x7E\<close>, the two bytes \<open>lo\<close>, \<open>hi\<close> of the
  length \<open>3 + len p\<close> in little-endian order, \<open>0x00\<close>, the address, the command id, the
  payload and \<open>0x7E\<close>. With an address or a command id outside \<open>0..255\<close> it raises
  \<^verbatim>\<open>ValueError\<close>; otherwise, with a longer payload, \<^verbatim>\<open>struct.error\<close>.
\<close>

theorem build_command_frame:
  "(0 \<le> a \<and> a \<le> 255 \<and> 0 \<le> c \<and> c \<le> 255 \<and> length p \<le> 65532 \<longrightarrow>
      (\<exists>lo hi. build_command a c p =
                 Inr ([0x7E] @ [lo, hi] @ [0x00, word_of_int a, word_of_int c] @ p @ [0x7E]) \<and>
               uint lo + 256 * uint hi = 3 + int (length p) \<and>
               uint (word_of_int a :: byte) = a \<and> uint (word_of_int c :: byte) = c)) \<and>
   (\<not> (0 \<le> a \<and> a \<le> 255 \<and> 0 \<le> c \<and> c \<le> 255) \<longrightarrow>
      build_command a c p = Inl ValueError) \<and>
   (0 \<le> a \<and> a \<le> 255 \<and> 0 \<le> c \<and> c \<le> 255 \<and> 65532 < length p \<longrightarrow>
      build_command a c p = Inl StructError)"
proof (intro conjI impI)
  assume r: "0 \<le> a \<and> a \<le> 255 \<and> 0 \<le> c \<and> c \<le> 255 \<and> length p \<le> 65532"
  define L where "L = 3 + int (length p)"
  have L: "0 \<le> L" "L \<le> 65535"
    using r by (simp_all add: L_def)
  have "build_command a c p =
          Inr ([0x7E] @ [word_of_int (L mod 256), word_of_int (L div 256)] @
               [0x00, word_of_int a, word_of_int c] @ p @ [0x7E])"
    using r by (simp add: build_command_cases L_def)
  moreover have "uint (word_of_int (L mod 256) :: byte) +
      256 * uint (word_of_int (L div 256) :: byte) = 3 + int (length p)"
    using le16_roundtrip [OF L] by (simp add: L_def)
  moreover have "uint (word_of_int a :: byte) = a" "uint (word_of_int c :: byte) = c"
    using r by (simp_all add: uint_word_of_int)
  ultimately show "\<exists>lo hi. build_command a c p =
                 Inr ([0x7E] @ [lo, hi] @ [0x00, word_of_int a, word_of_int c] @ p @ [0x7E]) \<and>
               uint lo + 256 * uint hi = 3 + int (length p) \<and>
               uint (word_of_int a :: byte) = a \<and> uint (word_of_int c :: byte) = c"
    by blast
next
  assume "\<not> (0 \<le> a \<and> a \<le> 255 \<and> 0 \<le> c \<and> c \<le> 255)"
  then show "build_command a c p = Inl ValueError"
    by (simp add: build_command_cases)
next
  assume "0 \<le> a \<and> a \<le> 255 \<and> 0 \<le> c \<and> c \<le> 255 \<and> 65532 < length p"
  then show "build_command a c p = Inl StructError"
    by (simp add: build_command_cases)
qed

theorem build_command_frame_witness:
  "(\<exists>lo hi. build_command 0x3D 0x01 [0xAA, 0xBB] =
              Inr ([0x7E] @ [lo, hi] @ [0x00, 0x3D, 0x01] @ [0xAA, 0xBB] @ [0x7E]) \<and>
            uint lo + 256 * uint hi = 5) \<and>
   build_command 0x3D 300 [0xAA] = Inl ValueError \<and>
   build_command 0x3D 0x01 (replicate 70000 0x00) = Inl StructError"
  using build_command_frame [of "0x3D" "0x01" "[0xAA, 0xBB]"]
    build_command_frame [of "0x3D" 300 "[0xAA]"]
    build_command_frame [of "0x3D" "0x01" "replicate 70000 0x00"]
  by simp

text \<open>
  C9. For every input of at least 6 bytes whose first and last bytes are \<open>0x7E\<close>,
  \<open>parse_response\<close> returns a dictionary: the length is the little-endian 16-bit value
  of bytes 1 and 2, the type is byte 3, \<open>can_addr\<close> byte 4, \<open>cmd_id\<close> byte 5, and the
  payload the bytes from index 6 up to, not including, the last one (none when the
  input has at most 7 bytes). Bytes 1 and 2 are not compared with the size of the
  payload: the statement holds whatever they are.
\<close>

theorem parse_response_wellformed:
  assumes "6 \<le> length d" "hd d = 0x7E" "last d = 0x7E"
  shows "\<exists>r. parse_response d = Inr (Some r) \<and>
           length_field r = uint (d ! 1) + 256 * uint (d ! 2) \<and>
           type_field r = uint (d ! 3) \<and> can_addr r = uint (d ! 4) \<and> cmd_id r = uint (d ! 5) \<and>
           payload r = map ((!) d) [6..<length d - 1] \<and>
           (length d \<le> 7 \<longrightarrow> payload r = []) \<and>
           raw r = d"
proof -
  from assms have "d \<noteq> []" by auto
  then have "hd d = d ! 0" by (simp add: hd_conv_nth)
  with assms have "parse_response d =
     Inr (Some \<lparr> length_field = uint (d ! 1) + 256 * uint (d ! 2),
                 type_field = uint (d ! 3), can_addr = uint (d ! 4), cmd_id = uint (d ! 5),
                 payload = butlast (drop 6 d), raw = d \<rparr>)"
    by (simp add: parse_response_shape)
  then show ?thesis
    by (simp add: butlast_drop_nth)
qed

theorem parse_response_wellformed_witness:
  "\<exists>r. parse_response [0x7E, 0xFF, 0xFF, 0x05, 0x3D, 0x01, 0x10, 0x20, 0x7E] = Inr (Some r) \<and>
     length_field r = 65535 \<and> type_field r = 5 \<and> can_addr r = 61 \<and> cmd_id r = 1 \<and>
     payload r = [0x10, 0x20] \<and>
     raw r = [0x7E, 0xFF, 0xFF, 0x05, 0x3D, 0x01, 0x10, 0x20, 0x7E]"
  using parse_response_wellformed [of "[0x7E, 0xFF, 0xFF, 0x05, 0x3D, 0x01, 0x10, 0x20, 0x7E]"]
  by (simp add: upt_rec)

section \<open>The result aggregator\<close>


lemma success_rate_nonzero:
  "requests_sent r \<noteq> 0 \<Longrightarrow>
   success_rate r =
     (if float_overflow \<le> \<bar>real_of_int (responses_received r) / real_of_int (requests_sent r)\<bar>
      then Inl OverflowError
      else Inr (float_result
        (round_double (real_of_int (responses_received r) / real_of_int (requests_sent r)) * 100)))"
  by (simp add: success_rate_def int_true_div_def float_mul_def)

lemma success_rate_in_range:
  assumes "0 \<le> responses_received r" "responses_received r \<le> requests_sent r"
  shows "\<exists>v. success_rate r = Inr (Float v) \<and> 0 \<le> v \<and> v \<le> 100"
proof (cases "requests_sent r = 0")
  case True
  then show ?thesis by (simp add: success_rate_def)
next
  case False
  define x where "x = real_of_int (responses_received r) / real_of_int (requests_sent r)"
  have pos: "0 < requests_sent r" using assms False by simp
  have x: "0 \<le> x" "x \<le> 1"
    using assms pos by (simp_all add: x_def)
  have q: "0 \<le> round_double x" "round_double x \<le> 1"
    using round_double_unit [OF x] by simp_all
  then have p: "0 \<le> round_double x * 100" "round_double x * 100 \<le> 100"
    by simp_all
  have r: "0 \<le> round_double (round_double x * 100)" "round_double (round_double x * 100) \<le> 100"
    using round_double_percent [OF p] by simp_all
  have "\<bar>x\<bar> < float_overflow"
    using x float_overflow_pos by simp
  moreover have "float_result (round_double x * 100) = Float (round_double (round_double x * 100))"
    using p float_overflow_pos by (simp add: float_result_def)
  ultimately have "success_rate r = Inr (Float (round_double (round_double x * 100)))"
    using False by (simp add: success_rate_nonzero x_def)
  with r show ?thesis by simp
qed

lemma success_rate_mono:
  assumes pos: "0 < requests_sent r" and xy: "x \<le> y"
    and u: "success_rate (r\<lparr>responses_received := x\<rparr>) = Inr u"
    and v: "success_rate (r\<lparr>responses_received := y\<rparr>) = Inr v"
  shows "float_le u v"
proof -
  define n where "n = real_of_int (requests_sent r)"
  have n: "0 < n" using pos by (simp add: n_def)
  have "real_of_int x / n \<le> real_of_int y / n"
    using xy n by (simp add: divide_right_mono)
  then have "round_double (real_of_int x / n) \<le> round_double (real_of_int y / n)"
    by (rule round_double_mono)
  then have "round_double (real_of_int x / n) * 100 \<le> round_double (real_of_int y / n) * 100"
    by simp
  then have le: "float_le (float_result (round_double (real_of_int x / n) * 100))
                   (float_result (round_double (real_of_int y / n) * 100))"
    by (rule float_result_mono)
  have "u = float_result (round_double (real_of_int x / n) * 100)"
    using u pos by (simp add: success_rate_nonzero n_def split: if_splits)
  moreover have "v = float_result (round_double (real_of_int y / n) * 100)"
    using v pos by (simp add: success_rate_nonzero n_def split: if_splits)
  ultimately show ?thesis using le by simp
qed

lemma success_rate_raises:
  "(success_rate r = Inl e) =
     (e = OverflowError \<and> requests_sent r \<noteq> 0 \<and>
      float_overflow \<le> \<bar>real_of_int (responses_received r) / real_of_int (requests_sent r)\<bar>)"
proof (cases "requests_sent r = 0")
  case True
  then show ?thesis by (simp add: success_rate_def)
next
  case False
  then show ?thesis by (auto simp: success_rate_nonzero)
qed


text \<open>
  The rounding is visible: with 29 responses to 100 requests the rate is not 29 but the
  double below it (Python prints \<^verbatim>\<open>28.999999999999996\<close>).
\<close>

lemma success_rate_rounds:
  "success_rate ((TestResult_init ''crash_test'' 0)
      \<lparr>requests_sent := 100, responses_received := 29\<rparr>) =
     Inr (Float (8162774324609023 / 2 ^ 48)) \<and>
   (8162774324609023 / 2 ^ 48 :: real) < 29"
proof -
  define x :: real where "x = 5224175567749775 / 2 ^ 54 * 100"
  have rd: "round_double x = 8162774324609023 / 2 ^ 48"
    unfolding x_def by (rule rd_29)
  have "x < float_overflow" "- float_overflow < x"
    by (simp_all add: x_def float_overflow_def)
  then have fr: "float_result x = Float (round_double x)"
    by (simp add: float_result_def)
  have q: "round_double (29 / 100) * 100 = x"
    by (simp only: rd_29_100 x_def)
  let ?r = "(TestResult_init ''crash_test'' 0)
      \<lparr>requests_sent := 100, responses_received := 29\<rparr>"
  have "success_rate ?r = Inr (float_result (round_double (29 / 100) * 100))"
    by (simp add: success_rate_nonzero float_overflow_def TestResult_init_def)
  then have "success_rate ?r = Inr (Float (8162774324609023 / 2 ^ 48))"
    by (simp only: q fr rd)
  then show ?thesis
    by simp
qed

lemma success_rate_examples:
  "success_rate ((TestResult_init ''crash_test'' 0)
      \<lparr>requests_sent := 1, responses_received := 1\<rparr>) = Inr (Float 100)"
  "success_rate ((TestResult_init ''crash_test'' 0)
      \<lparr>requests_sent := 1, responses_received := 2\<rparr>) = Inr (Float 200)"
  "success_rate ((TestResult_init ''crash_test'' 0)
      \<lparr>requests_sent := 1, responses_received := 10 ^ 400\<rparr>) = Inl OverflowError"
  by (simp_all add: success_rate_nonzero float_result_def float_overflow_def TestResult_init_def
      rd_1 rd_2 rd_100 rd_200)

text \<open>
  C3, as the claim states it, fails. With 1 request sent and 2 responses received
  \<open>success_rate\<close> is 200, and with 1 request sent and \<open>-1\<close> responses it is \<open>-100\<close>:
  outside \<open>[0, 100]\<close>. With \<open>requests_sent = -1\<close> it falls from 0 to \<open>-100\<close> when
  \<open>responses_received\<close> rises from 0 to 1: not non-decreasing. With 1 request sent and
  \<open>10 ^ 400\<close> responses it returns no value: the division raises \<^verbatim>\<open>OverflowError\<close>.
\<close>

theorem success_rate_out_of_range:
  "success_rate ((TestResult_init ''crash_test'' 0)
      \<lparr>requests_sent := 1, responses_received := 2\<rparr>) = Inr (Float 200) \<and>
   success_rate ((TestResult_init ''crash_test'' 0)
      \<lparr>requests_sent := 1, responses_received := - 1\<rparr>) = Inr (Float (- 100)) \<and>
   success_rate ((TestResult_init ''crash_test'' 0)
      \<lparr>requests_sent := - 1, responses_received := 0\<rparr>) = Inr (Float 0) \<and>
   success_rate ((TestResult_init ''crash_test'' 0)
      \<lparr>requests_sent := - 1, responses_received := 1\<rparr>) = Inr (Float (- 100)) \<and>
   \<not> float_le (Float 0) (Float (- 100)) \<and>
   success_rate ((TestResult_init ''crash_test'' 0)
      \<lparr>requests_sent := 1, responses_received := 10 ^ 400\<rparr>) = Inl OverflowError"
  by (simp add: success_rate_nonzero float_result_def float_overflow_def TestResult_init_def
      rd_1 rd_2 rd_100 rd_200 rd_m1 rd_m100 round_double_0)

text \<open>
  C3, amended. \<open>success_rate\<close> is 0 when \<open>requests_sent = 0\<close>; it returns a value in
  \<open>[0, 100]\<close> when \<open>0 \<le> responses_received \<le> requests_sent\<close>; for a fixed positive
  \<open>requests_sent\<close> it is non-decreasing in \<open>responses_received\<close> wherever it returns a
  value; and it raises exactly when \<open>requests_sent\<close> is not 0 and the quotient of the
  counters is too large for a float, the exception being \<^verbatim>\<open>OverflowError\<close>.
\<close>

theorem success_rate_bounds:
  "(requests_sent r = 0 \<longrightarrow> success_rate r = Inr (Float 0)) \<and>
   (0 \<le> responses_received r \<and> responses_received r \<le> requests_sent r \<longrightarrow>
      (\<exists>v. success_rate r = Inr (Float v) \<and> 0 \<le> v \<and> v \<le> 100)) \<and>
   (0 < requests_sent r \<and> x \<le> y \<and>
    success_rate (r\<lparr>responses_received := x\<rparr>) = Inr u \<and>
    success_rate (r\<lparr>responses_received := y\<rparr>) = Inr v \<longrightarrow> float_le u v) \<and>
   ((success_rate r = Inl err) =
      (err = OverflowError \<and> requests_sent r \<noteq> 0 \<and>
       float_overflow \<le>
         \<bar>real_of_int (responses_received r) / real_of_int (requests_sent r)\<bar>))"
proof (intro conjI impI)
  assume "requests_sent r = 0"
  then show "success_rate r = Inr (Float 0)"
    by (simp add: success_rate_def)
next
  assume "0 \<le> responses_received r \<and> responses_received r \<le> requests_sent r"
  then show "\<exists>v. success_rate r = Inr (Float v) \<and> 0 \<le> v \<and> v \<le> 100"
    by (simp add: success_rate_in_range)
next
  assume "0 < requests_sent r \<and> x \<le> y \<and>
    success_rate (r\<lparr>responses_received := x\<rparr>) = Inr u \<and>
    success_rate (r\<lparr>responses_received := y\<rparr>) = Inr v"
  then show "float_le u v"
    using success_rate_mono [of r x y u v] by simp
next
  show "(success_rate r = Inl err) =
      (err = OverflowError \<and> requests_sent r \<noteq> 0 \<and>
       float_overflow \<le>
         \<bar>real_of_int (responses_received r) / real_of_int (requests_sent r)\<bar>)"
    by (rule success_rate_raises)
qed

theorem success_rate_bounds_witness:
  "success_rate (TestResult_init ''crash_test'' 0) = Inr (Float 0) \<and>
   (\<exists>v. success_rate ((TestResult_init ''crash_test'' 0)
           \<lparr>requests_sent := 4, responses_received := 3\<rparr>) = Inr (Float v) \<and>
        0 \<le> v \<and> v \<le> 100) \<and>
   (\<exists>u v. success_rate ((TestResult_init ''crash_test'' 0)
             \<lparr>requests_sent := 1, responses_received := 1\<rparr>) = Inr u \<and>
          success_rate ((TestResult_init ''crash_test'' 0)
             \<lparr>requests_sent := 1, responses_received := 2\<rparr>) = Inr v \<and>
          float_le u v) \<and>
   success_rate ((TestResult_init ''crash_test'' 0)
      \<lparr>requests_sent := 1, responses_received := 10 ^ 400\<rparr>) = Inl OverflowError"
proof -
  let ?r = "TestResult_init ''crash_test'' 0"
  have big: "float_overflow \<le> \<bar>real_of_int (10 ^ 400) / real_of_int 1\<bar>"
    by (simp add: float_overflow_def)
  have none: "requests_sent ?r = 0"
    by (simp add: TestResult_init_def)
  show ?thesis
    using success_rate_bounds [of ?r 0 0 "Float 0" "Float 0" OverflowError]
      success_rate_bounds [of "?r\<lparr>requests_sent := 4, responses_received := 3\<rparr>"
        0 0 "Float 0" "Float 0" OverflowError]
      success_rate_bounds [of "?r\<lparr>requests_sent := 1\<rparr>" 1 2 "Float 100" "Float 200"
        OverflowError]
      success_rate_bounds [of "?r\<lparr>requests_sent := 1, responses_received := 10 ^ 400\<rparr>"
        0 0 "Float 0" "Float 0" OverflowError]
      big none
    by (simp add: success_rate_examples)
qed



section \<open>The liveness monitor\<close>

lemma check_device_alive_eq:
  "check_device_alive e timeout w =
     (fst (probe e (now w) timeout), tick (snd (probe e (now w) timeout)) w)"
  by (simp add: check_device_alive_def split: prod.split)

lemma now_tick [simp]: "now (tick d w) = now w + d"
  by (simp add: tick_def)

lemma trace_tick [simp]: "trace (tick d w) = trace w"
  by (simp add: tick_def)

lemma now_emit [simp]: "now (emit ev w) = now w"
  by (simp add: emit_def)

lemma trace_emit [simp]: "trace (emit ev w) = trace w @ [ev]"
  by (simp add: emit_def)

lemma now_sleep [simp]: "now (sleep e d w) = now w + d + oversleep e (now w) d"
  by (simp add: sleep_def)

lemma trace_sleep [simp]: "trace (sleep e d w) = trace w"
  by (simp add: sleep_def)

text \<open>
  The loop returns as soon as the clock advances in every round of a failed probe and
  a sleep.
\<close>

lemma wait_loop_total:
  assumes prog: "\<forall>t. 0 < snd (probe e t 2000) + ci"
  shows "\<exists>r w'. wait_loop e end_t ci w = Some (r, w') \<and> trace w' = trace w \<and> now w \<le> now w'"
proof (induction "end_t - now w" arbitrary: w rule: less_induct)
  case less
  show ?case
  proof (cases "now w < end_t")
    case False
    then show ?thesis
      by (subst wait_loop.simps) auto
  next
    case True
    define w1 where "w1 = tick (snd (probe e (now w) 2000)) w"
    show ?thesis
    proof (cases "fst (probe e (now w) 2000)")
      case alive: True
      with True show ?thesis
        by (subst wait_loop.simps) (auto simp: check_device_alive_eq)
    next
      case dead: False
      define w2 where "w2 = sleep e ci w1"
      have "now w < now w2"
        using prog [rule_format, of "now w"] by (auto simp: w2_def w1_def)
      then have "end_t - now w2 < end_t - now w"
        using True by simp
      from less [OF this] obtain r w' where
        rec: "wait_loop e end_t ci w2 = Some (r, w')" "trace w' = trace w2" "now w2 \<le> now w'"
        by blast
      have "wait_loop e end_t ci w = wait_loop e end_t ci w2"
        using True dead
        by (subst wait_loop.simps) (simp add: check_device_alive_eq w2_def w1_def)
      with rec show ?thesis
        by (simp add: w2_def w1_def)
    qed
  qed
qed

lemma wait_loop_all_fail:
  assumes fail: "\<forall>t. \<not> fst (probe e t 2000)"
    and dur: "\<forall>t. snd (probe e t 2000) \<le> d"
    and prog: "\<forall>t. 0 < snd (probe e t 2000) + ci"
    and over: "\<forall>t. oversleep e t ci \<le> over"
  shows "\<exists>w'. wait_loop e end_t ci w = Some (False, w') \<and> trace w' = trace w \<and>
           end_t \<le> now w' \<and> now w \<le> now w' \<and>
           (if now w < end_t then now w' < end_t + d + ci + over else w' = w)"
proof (induction "end_t - now w" arbitrary: w rule: less_induct)
  case less
  show ?case
  proof (cases "now w < end_t")
    case False
    then show ?thesis
      by (subst wait_loop.simps) simp
  next
    case True
    define c where "c = snd (probe e (now w) 2000)"
    define ov where "ov = oversleep e (now w + c) ci"
    define w2 where "w2 = sleep e ci (tick c w)"
    have c: "c \<le> d"
      using dur by (simp add: c_def)
    have ov: "ov \<le> over"
      using over by (simp add: ov_def)
    have n2: "now w2 = now w + c + ci + ov"
      by (simp add: w2_def ov_def)
    have "0 < c + ci"
      using prog [rule_format, of "now w"] by (simp add: c_def)
    with True n2 have "end_t - now w2 < end_t - now w"
      by arith
    from less [OF this] obtain w' where
      rec: "wait_loop e end_t ci w2 = Some (False, w')" "trace w' = trace w2"
        "end_t \<le> now w'" "now w2 \<le> now w'"
        "if now w2 < end_t then now w' < end_t + d + ci + over else w' = w2"
      by blast
    have step: "wait_loop e end_t ci w = wait_loop e end_t ci w2"
      using True fail
      by (subst wait_loop.simps) (simp add: check_device_alive_eq w2_def c_def)
    have "now w' < end_t + d + ci + over"
    proof (cases "now w2 < end_t")
      case True
      with rec show ?thesis by simp
    next
      case False
      with rec have "w' = w2" by simp
      then show ?thesis
        using True c ov n2 by simp
    qed
    moreover have "trace w' = trace w"
      using rec(2) by (simp add: w2_def)
    moreover have "now w \<le> now w'"
      using rec(4) n2 by simp
    ultimately show ?thesis
      using rec(1,3) step True by simp
  qed
qed

text \<open>
  C8, as the claim states it, fails. Against a device that never answers and whose
  probes each take 2.5 seconds, \<open>wait_for_device\<close> with a 60-second timeout and a
  2-second interval called at clock reading 0 returns \<^verbatim>\<open>False\<close> at 63 seconds, later
  than the timeout plus one interval (62 seconds): the probe that starts before the
  deadline runs to its end and is followed by a sleep. A sleep that overshoots adds to
  it: with probes of 1 second, a 61-second timeout, a 2-second interval and sleeps that
  each last 2 seconds longer than asked, the call returns at 65 seconds, later even than
  the timeout plus one probe plus one interval (64 seconds).
\<close>

theorem wait_for_device_late:
  "wait_for_device (silent_device 2500) 60000 2000 \<lparr>now = 0, trace = []\<rparr> =
     Some (False, \<lparr>now = 63000, trace = []\<rparr>) \<and>
   (0 + 60000 + 2000 :: nat) < now \<lparr>now = 63000, trace = []\<rparr> \<and>
   wait_for_device ((silent_device 1000)\<lparr>oversleep := (\<lambda>t d. 2000)\<rparr>) 61000 2000 \<lparr>now = 0, trace = []\<rparr> =
     Some (False, \<lparr>now = 65000, trace = []\<rparr>) \<and>
   (0 + 61000 + 1000 + 2000 :: nat) < now \<lparr>now = 65000, trace = []\<rparr>"
  by (simp add: wait_for_device_def wait_loop.simps check_device_alive_eq silent_device_def
      sleep_def tick_def)

text \<open>
  C8, amended. When every probe fails, none taking longer than \<open>d\<close>, and no sleep of
  the loop overshoots by more than \<open>over\<close>, \<open>wait_for_device\<close> returns \<^verbatim>\<open>False\<close>, no
  earlier than the timeout after the call and earlier than the timeout plus \<open>d\<close> plus
  one poll interval plus \<open>over\<close> after the call. The poll interval may be 0. (The clock
  is discrete: that a probe and the sleep after it together take at least one
  millisecond stands for the time that passes in every round of the loop.)
\<close>

theorem wait_for_device_all_fail:
  assumes "\<forall>t. \<not> fst (probe e t 2000)"
    and "\<forall>t. snd (probe e t 2000) \<le> d"
    and "\<forall>t. 0 < snd (probe e t 2000) + check_interval"
    and "\<forall>t. oversleep e t check_interval \<le> over"
  shows "\<exists>w'. wait_for_device e timeout check_interval w = Some (False, w') \<and>
           now w + timeout \<le> now w' \<and>
           now w' < now w + timeout + d + check_interval + over"
proof -
  have d: "0 < d + check_interval"
    using assms(2) [rule_format, of 0] assms(3) [rule_format, of 0] by arith
  from wait_loop_all_fail [OF assms, of "now w + timeout" w] obtain w' where
    r: "wait_loop e (now w + timeout) check_interval w = Some (False, w')"
      "now w + timeout \<le> now w'"
      "if now w < now w + timeout
       then now w' < now w + timeout + d + check_interval + over else w' = w"
    by blast
  have "now w' < now w + timeout + d + check_interval + over"
  proof (cases "now w < now w + timeout")
    case True
    with r show ?thesis by simp
  next
    case False
    with r have "w' = w" by simp
    then show ?thesis
      using d by auto
  qed
  with r show ?thesis
    by (simp add: wait_for_device_def)
qed

theorem wait_for_device_all_fail_witness:
  "(\<exists>w'. wait_for_device (silent_device 2500) 60000 0 \<lparr>now = 0, trace = []\<rparr> = Some (False, w') \<and>
        60000 \<le> now w' \<and> now w' < 62500) \<and>
   (\<exists>w'. wait_for_device (silent_device 0) 60000 2000 \<lparr>now = 0, trace = []\<rparr> = Some (False, w') \<and>
        60000 \<le> now w' \<and> now w' < 62000) \<and>
   (\<exists>w'. wait_for_device ((silent_device 1000)\<lparr>oversleep := (\<lambda>t d. 2000)\<rparr>) 61000 2000 \<lparr>now = 0, trace = []\<rparr> =
          Some (False, w') \<and>
        61000 \<le> now w' \<and> now w' < 66000)"
  using wait_for_device_all_fail [where e = "silent_device 2500" and d = 2500
      and check_interval = 0 and over = 0 and timeout = 60000 and w = "\<lparr>now = 0, trace = []\<rparr>"]
    wait_for_device_all_fail [where e = "silent_device 0" and d = 0
      and check_interval = 2000 and over = 0 and timeout = 60000 and w = "\<lparr>now = 0, trace = []\<rparr>"]
    wait_for_device_all_fail [where e = "(silent_device 1000)\<lparr>oversleep := (\<lambda>t d. 2000)\<rparr>"
      and d = 1000 and check_interval = 2000 and over = 2000 and timeout = 61000
      and w = "\<lparr>now = 0, trace = []\<rparr>"]
  by (simp add: silent_device_def)

section \<open>The crash check\<close>

lemma wait_for_device_total:
  "\<exists>r w'. wait_for_device e timeout 2000 w = Some (r, w') \<and> trace w' = trace w \<and> now w \<le> now w'"
  using wait_loop_total [of e 2000 "now w + timeout" w] by (simp add: wait_for_device_def)

text \<open>The recovery wait against the two test devices, after a failed probe at 10005.\<close>

lemma rebooting_wait:
  "\<not> fst (check_device_alive rebooting_device 3000 \<lparr>now = 10005, trace = []\<rparr>)"
  "wait_for_device rebooting_device 60000 2000
     (snd (check_device_alive rebooting_device 3000 \<lparr>now = 10005, trace = []\<rparr>)) =
     Some (True, \<lparr>now = 33010, trace = []\<rparr>)"
  by (simp_all add: wait_for_device_def wait_loop.simps check_device_alive_eq
      rebooting_device_def sleep_def tick_def)

lemma silent_wait:
  "\<not> fst (check_device_alive (silent_device 2000) 3000 \<lparr>now = 10005, trace = []\<rparr>)"
  "wait_for_device (silent_device 2000) 60000 2000
     (snd (check_device_alive (silent_device 2000) 3000 \<lparr>now = 10005, trace = []\<rparr>)) =
     Some (False, \<lparr>now = 72005, trace = []\<rparr>)"
  by (simp_all add: wait_for_device_def wait_loop.simps check_device_alive_eq
      silent_device_def sleep_def tick_def)

lemma check_for_crash_alive:
  assumes "fst (check_device_alive e 3000 w)"
  shows "check_for_crash e m (w, s) = Some (False, snd (check_device_alive e 3000 w), s)"
  using assms by (cases "check_device_alive e 3000 w") (simp add: check_for_crash_def)

lemma check_for_crash_dead:
  assumes "\<not> fst (check_device_alive e 3000 w)"
    and "wait_for_device e 60000 2000 (snd (check_device_alive e 3000 w)) = Some (recovered, w2)"
  shows "check_for_crash e m (w, s) =
     Some (True, emit (Detected (if recovered then m else m @ '' (no recovery)'')) w2,
           s\<lparr>crash_detected := True,
             crash_method := Some (if recovered then m else m @ '' (no recovery)''),
             result := (result s)\<lparr>device_unresponsive_events :=
                           device_unresponsive_events (result s) + 1,
                         possible_crashes := possible_crashes (result s) + 1\<rparr>\<rparr>)"
  using assms by (cases "check_device_alive e 3000 w") (simp add: check_for_crash_def Let_def)

text \<open>
  C2, as the claim states it, fails: it has the crash check record whether the device
  recovered, and the tester has no such field. What the check leaves behind does not
  tell the two outcomes apart: called with the name \<open>flood (no recovery)\<close> against a
  device that recovers, and with the name \<open>flood\<close> against a device that does not, it
  leaves the same tester, with the same \<open>crash_method\<close>.
\<close>

theorem check_for_crash_recovery_unrecorded:
  "wait_for_device rebooting_device 60000 2000
     (snd (check_device_alive rebooting_device 3000 \<lparr>now = 10005, trace = []\<rparr>)) =
     Some (True, \<lparr>now = 33010, trace = []\<rparr>) \<and>
   wait_for_device (silent_device 2000) 60000 2000
     (snd (check_device_alive (silent_device 2000) 3000 \<lparr>now = 10005, trace = []\<rparr>)) =
     Some (False, \<lparr>now = 72005, trace = []\<rparr>) \<and>
   check_for_crash rebooting_device ''flood (no recovery)'' (\<lparr>now = 10005, trace = []\<rparr>, CrashTester_init ''10.0.0.1'' 0) =
     Some (True, \<lparr>now = 33010, trace = [Detected ''flood (no recovery)'']\<rparr>,
           (CrashTester_init ''10.0.0.1'' 0)\<lparr>crash_detected := True, crash_method := Some ''flood (no recovery)'',
                 result := (TestResult_init ''crash_test'' 0)
                   \<lparr>device_unresponsive_events := 1, possible_crashes := 1\<rparr>\<rparr>) \<and>
   check_for_crash (silent_device 2000) ''flood'' (\<lparr>now = 10005, trace = []\<rparr>, CrashTester_init ''10.0.0.1'' 0) =
     Some (True, \<lparr>now = 72005, trace = [Detected ''flood (no recovery)'']\<rparr>,
           (CrashTester_init ''10.0.0.1'' 0)\<lparr>crash_detected := True, crash_method := Some ''flood (no recovery)'',
                 result := (TestResult_init ''crash_test'' 0)
                   \<lparr>device_unresponsive_events := 1, possible_crashes := 1\<rparr>\<rparr>)"
  using check_for_crash_dead [OF rebooting_wait, of "''flood (no recovery)''" "CrashTester_init ''10.0.0.1'' 0"]
    check_for_crash_dead [OF silent_wait, of "''flood''" "CrashTester_init ''10.0.0.1'' 0"]
  by (simp add: rebooting_wait silent_wait emit_def CrashTester_init_def TestResult_init_def)

text \<open>
  C2, amended. When the probe of the crash check finds the device unresponsive, the
  recovery wait returns, and \<open>check_for_crash\<close> returns \<^verbatim>\<open>True\<close> with the
  unresponsive-event counter and the possible-crash counter each raised by exactly 1
  and \<open>crash_detected\<close> set. No field records the recovery: \<open>crash_method\<close> is the
  descriptor name when the wait found the device recovered, and the descriptor name
  followed by \<open>(no recovery)\<close> when it did not, so that it equals the name the check was
  called with exactly when the device recovered. Nothing else of the tester changes.
\<close>

theorem check_for_crash_unresponsive:
  assumes "\<not> fst (check_device_alive e 3000 w)"
  shows "\<exists>recovered w1 w2 s'.
      wait_for_device e 60000 2000 (snd (check_device_alive e 3000 w)) = Some (recovered, w1) \<and>
      check_for_crash e method_name (w, s) = Some (True, w2, s') \<and>
      device_unresponsive_events (result s') = device_unresponsive_events (result s) + 1 \<and>
      possible_crashes (result s') = possible_crashes (result s) + 1 \<and>
      crash_detected s' \<and>
      crash_method s' =
        Some (if recovered then method_name else method_name @ '' (no recovery)'') \<and>
      (crash_method s' = Some method_name) = recovered \<and>
      s' = s\<lparr>crash_detected := True,
              crash_method := crash_method s',
              result := (result s)\<lparr>device_unresponsive_events :=
                            device_unresponsive_events (result s) + 1,
                          possible_crashes := possible_crashes (result s) + 1\<rparr>\<rparr>"
proof -
  obtain recovered w1 where
    wait: "wait_for_device e 60000 2000 (snd (check_device_alive e 3000 w)) = Some (recovered, w1)"
    using wait_for_device_total [of e 60000 "snd (check_device_alive e 3000 w)"] by blast
  show ?thesis
    using wait check_for_crash_dead [OF assms wait, of method_name s] by simp
qed

theorem check_for_crash_unresponsive_witness:
  "(\<exists>w1 w2 s'.
      wait_for_device rebooting_device 60000 2000
        (snd (check_device_alive rebooting_device 3000 \<lparr>now = 10005, trace = []\<rparr>)) =
        Some (True, w1) \<and>
      check_for_crash rebooting_device ''concurrent_flood''
        (\<lparr>now = 10005, trace = []\<rparr>, CrashTester_init ''10.0.0.1'' 0) = Some (True, w2, s') \<and>
      device_unresponsive_events (result s') = 1 \<and> possible_crashes (result s') = 1 \<and>
      crash_detected s' \<and> crash_method s' = Some ''concurrent_flood'') \<and>
   (\<exists>w1 w2 s'.
      wait_for_device (silent_device 2000) 60000 2000
        (snd (check_device_alive (silent_device 2000) 3000 \<lparr>now = 10005, trace = []\<rparr>)) =
        Some (False, w1) \<and>
      check_for_crash (silent_device 2000) ''concurrent_flood''
        (\<lparr>now = 10005, trace = []\<rparr>, CrashTester_init ''10.0.0.1'' 0) = Some (True, w2, s') \<and>
      device_unresponsive_events (result s') = 1 \<and> possible_crashes (result s') = 1 \<and>
      crash_detected s' \<and> crash_method s' = Some ''concurrent_flood (no recovery)'' \<and>
      crash_method s' \<noteq> Some ''concurrent_flood'')"
proof -
  let ?w = "\<lparr>now = 10005, trace = []\<rparr>"
  let ?s = "CrashTester_init ''10.0.0.1'' 0"
  have init: "device_unresponsive_events (result ?s) = 0" "possible_crashes (result ?s) = 0"
    by (simp_all add: CrashTester_init_def TestResult_init_def)
  show ?thesis
    using check_for_crash_unresponsive [OF rebooting_wait(1), of "''concurrent_flood''" ?s]
      check_for_crash_unresponsive [OF silent_wait(1), of "''concurrent_flood''" ?s]
    by (simp only: rebooting_wait(2) silent_wait(2) init) auto
qed

text \<open>
  C10. When the probe of the crash check finds the device alive, \<open>check_for_crash\<close>
  returns \<^verbatim>\<open>False\<close> and the tester after the call is the tester before it: every
  counter of the result, the error log, \<open>crash_detected\<close> and \<open>crash_method\<close> are
  unchanged. (Only the clock has advanced by the time the probe took.)
\<close>

theorem check_for_crash_alive_unchanged:
  assumes "fst (check_device_alive e 3000 w)"
  shows "\<exists>w'. check_for_crash e method_name (w, s) = Some (False, w', s) \<and>
           trace w' = trace w \<and> now w \<le> now w'"
  using assms check_for_crash_alive [OF assms, of method_name s]
  by (simp add: check_device_alive_eq)

theorem check_for_crash_alive_unchanged_witness:
  "\<exists>w'. check_for_crash rebooting_device ''rapid_reconnect''
          (\<lparr>now = 0, trace = []\<rparr>, CrashTester_init ''10.0.0.1'' 0) =
          Some (False, w', CrashTester_init ''10.0.0.1'' 0) \<and>
        trace w' = [] \<and> 0 \<le> now w'"
  using check_for_crash_alive_unchanged [of rebooting_device "\<lparr>now = 0, trace = []\<rparr>"
      "''rapid_reconnect''" "CrashTester_init ''10.0.0.1'' 0"]
  by (simp add: check_device_alive_eq rebooting_device_def)

section \<open>The attack orchestrator\<close>

lemma crash_detected_add_requests [simp]: "crash_detected (add_requests n s) = crash_detected s"
  by (simp add: add_requests_def)

lemma crash_detected_add_responses [simp]: "crash_detected (add_responses n s) = crash_detected s"
  by (simp add: add_responses_def)

lemma consistent_quiet:
  "\<not> crash_detected s \<Longrightarrow> consistent (w, s) = (\<not> list_ex is_detection (trace w))"
  by (simp add: consistent_def)

lemma consistent_halted:
  "crash_detected s \<Longrightarrow>
   consistent (w, s) =
     (trace w \<noteq> [] \<and> is_detection (last (trace w)) \<and> detection_last (trace w))"
  by (simp add: consistent_def)

lemma check_for_crash_sticky:
  assumes "crash_detected s" and "check_for_crash e m (w, s) = Some (r, w', s')"
  shows "crash_detected s'"
proof (cases "fst (check_device_alive e 3000 w)")
  case True
  from check_for_crash_alive [OF True, of m s] assms show ?thesis by simp
next
  case False
  obtain recovered w1 where
    "wait_for_device e 60000 2000 (snd (check_device_alive e 3000 w)) = Some (recovered, w1)"
    using wait_for_device_total [of e 60000 "snd (check_device_alive e 3000 w)"] by blast
  from check_for_crash_dead [OF False this, of m s] assms show ?thesis by auto
qed

lemma check_for_crash_step:
  assumes "\<not> crash_detected s" and "\<not> list_ex is_detection (trace w)"
  shows "\<exists>r w' s'. check_for_crash e m (w, s) = Some (r, w', s') \<and> consistent (w', s') \<and>
           r = crash_detected s' \<and> now w \<le> now w'"
proof (cases "fst (check_device_alive e 3000 w)")
  case True
  have "consistent (snd (check_device_alive e 3000 w), s)"
    using assms by (simp add: consistent_quiet check_device_alive_eq)
  moreover have "now w \<le> now (snd (check_device_alive e 3000 w))"
    by (simp add: check_device_alive_eq)
  ultimately show ?thesis
    using check_for_crash_alive [OF True, of m s] assms by auto
next
  case False
  obtain recovered w1 where
    wait: "wait_for_device e 60000 2000 (snd (check_device_alive e 3000 w)) = Some (recovered, w1)"
    and tr: "trace w1 = trace (snd (check_device_alive e 3000 w))"
    and mono: "now (snd (check_device_alive e 3000 w)) \<le> now w1"
    using wait_for_device_total [of e 60000 "snd (check_device_alive e 3000 w)"] by blast
  have tr': "trace w1 = trace w"
    using tr by (simp add: check_device_alive_eq)
  have mono': "now w \<le> now w1"
    using mono by (simp add: check_device_alive_eq)
  show ?thesis
    using check_for_crash_dead [OF False wait, of m s] assms tr' mono'
    by (auto simp: consistent_halted detection_last_def)
qed

lemma attack_concurrent_flood_step:
  assumes "\<not> crash_detected s" and "\<not> list_ex is_detection (trace w)"
  shows "\<exists>r w' s'. attack_concurrent_flood e duration num_sockets (w, s) = Some (r, w', s') \<and>
           consistent (w', s') \<and> r = crash_detected s' \<and> now w \<le> now w'"
proof -
  obtain sent received d where fl: "flood e (now w) duration num_sockets = (sent, received, d)"
    by (cases "flood e (now w) duration num_sockets") auto
  define w1 where "w1 = tick d (emit (Work ''concurrent_flood'') w)"
  define s1 where "s1 = add_responses received (add_requests sent s)"
  have quiet: "\<not> crash_detected s1" "\<not> list_ex is_detection (trace w1)"
    using assms by (simp_all add: s1_def w1_def)
  have "attack_concurrent_flood e duration num_sockets (w, s) =
          check_for_crash e ''concurrent_flood'' (w1, s1)"
    by (simp add: attack_concurrent_flood_def fl w1_def s1_def)
  moreover have "now w \<le> now w1"
    by (simp add: w1_def)
  ultimately show ?thesis
    using check_for_crash_step [OF quiet, of e "''concurrent_flood''"] by fastforce
qed

lemma attack_combined_stress_step:
  assumes "\<not> crash_detected s" and "\<not> list_ex is_detection (trace w)"
  shows "\<exists>r w' s'. attack_combined_stress e duration (w, s) = Some (r, w', s') \<and>
           consistent (w', s') \<and> r = crash_detected s' \<and> now w \<le> now w'"
proof -
  obtain sent d where st: "stress e (now w) duration = (sent, d)"
    by (cases "stress e (now w) duration") auto
  define w1 where "w1 = tick d (emit (Work ''combined_stress'') w)"
  define s1 where "s1 = add_requests sent s"
  have quiet: "\<not> crash_detected s1" "\<not> list_ex is_detection (trace w1)"
    using assms by (simp_all add: s1_def w1_def)
  have "attack_combined_stress e duration (w, s) =
          check_for_crash e ''combined_stress'' (w1, s1)"
    using assms by (simp add: attack_combined_stress_def st w1_def s1_def)
  moreover have "now w \<le> now w1"
    by (simp add: w1_def)
  ultimately show ?thesis
    using check_for_crash_step [OF quiet, of e "''combined_stress''"] by fastforce
qed

lemma overflow_loop_step:
  assumes "\<not> crash_detected s" and "\<not> list_ex is_detection (trace w)"
  shows "\<exists>r w' s'. overflow_loop e idx (w, s) = Some (r, w', s') \<and> consistent (w', s') \<and>
           r = crash_detected s' \<and> now w \<le> now w'"
  using assms
proof (induction idx arbitrary: w s)
  case Nil
  then show ?case by (auto simp: consistent_quiet)
next
  case (Cons i rest)
  show ?case
  proof (cases "stop_flag e (now w)")
    case True
    with Cons.prems show ?thesis by (auto simp: consistent_quiet)
  next
    case False
    obtain sent d where ov: "overflow_round e (now w) = (sent, d)"
      by (cases "overflow_round e (now w)") auto
    define w1 where "w1 = tick d (emit (Work ''connection_overflow'') w)"
    define s1 where "s1 = add_requests sent s"
    have quiet: "\<not> crash_detected s1" "\<not> list_ex is_detection (trace w1)"
      using Cons.prems by (simp_all add: s1_def w1_def)
    have mono: "now w \<le> now w1"
      by (simp add: w1_def)
    show ?thesis
    proof (cases "i > 0 \<and> i mod 10 = 0")
      case check: True
      obtain r w2 s2 where
        c: "check_for_crash e ''connection_overflow'' (w1, s1) = Some (r, w2, s2)"
          "consistent (w2, s2)" "r = crash_detected s2" "now w1 \<le> now w2"
        using check_for_crash_step [OF quiet, of e "''connection_overflow''"] by blast
      show ?thesis
      proof (cases r)
        case True
        have "overflow_loop e (i # rest) (w, s) = Some (True, w2, s2)"
          using False Cons.prems(1) check c(1) True
          by (simp add: ov Let_def w1_def s1_def)
        with c True mono show ?thesis by auto
      next
        case no: False
        with c have quiet2: "\<not> crash_detected s2" "\<not> list_ex is_detection (trace w2)"
          by (simp_all add: consistent_def)
        have "overflow_loop e (i # rest) (w, s) = overflow_loop e rest (w2, s2)"
          using False Cons.prems(1) check c(1) no
          by (simp add: ov Let_def w1_def s1_def)
        with Cons.IH [OF quiet2] c(4) mono show ?thesis
          by fastforce
      qed
    next
      case skip: False
      have "overflow_loop e (i # rest) (w, s) = overflow_loop e rest (w1, s1)"
        using False Cons.prems(1) skip
        by (auto simp: ov Let_def w1_def s1_def)
      with Cons.IH [OF quiet] mono show ?thesis
        by fastforce
    qed
  qed
qed

lemma reconnect_loop_step:
  assumes "\<not> crash_detected s" and "\<not> list_ex is_detection (trace w)"
  shows "\<exists>r w' s'. reconnect_loop e idx (w, s) = Some (r, w', s') \<and> consistent (w', s') \<and>
           r = crash_detected s' \<and> now w \<le> now w'"
  using assms
proof (induction idx arbitrary: w s)
  case Nil
  then show ?case by (auto simp: consistent_quiet)
next
  case (Cons i rest)
  show ?case
  proof (cases "stop_flag e (now w)")
    case True
    with Cons.prems show ?thesis by (auto simp: consistent_quiet)
  next
    case False
    obtain sent d where rc: "reconnect_round e (now w) = (sent, d)"
      by (cases "reconnect_round e (now w)") auto
    define w1 where "w1 = tick d (emit (Work ''rapid_reconnect'') w)"
    define s1 where "s1 = (if sent then add_requests 1 s else s)"
    have quiet: "\<not> crash_detected s1" "\<not> list_ex is_detection (trace w1)"
      using Cons.prems by (simp_all add: s1_def w1_def)
    have mono: "now w \<le> now w1"
      by (simp add: w1_def)
    show ?thesis
    proof (cases "i > 0 \<and> i mod 25 = 0")
      case check: True
      obtain r w2 s2 where
        c: "check_for_crash e ''rapid_reconnect'' (w1, s1) = Some (r, w2, s2)"
          "consistent (w2, s2)" "r = crash_detected s2" "now w1 \<le> now w2"
        using check_for_crash_step [OF quiet, of e "''rapid_reconnect''"] by blast
      show ?thesis
      proof (cases r)
        case True
        have "reconnect_loop e (i # rest) (w, s) = Some (True, w2, s2)"
          using False Cons.prems(1) check c(1) True
          by (simp add: rc Let_def w1_def s1_def)
        with c True mono show ?thesis by auto
      next
        case no: False
        with c have quiet2: "\<not> crash_detected s2" "\<not> list_ex is_detection (trace w2)"
          by (simp_all add: consistent_def)
        have "reconnect_loop e (i # rest) (w, s) = reconnect_loop e rest (w2, s2)"
          using False Cons.prems(1) check c(1) no
          by (simp add: rc Let_def w1_def s1_def)
        with Cons.IH [OF quiet2] c(4) mono show ?thesis
          by fastforce
      qed
    next
      case skip: False
      have "reconnect_loop e (i # rest) (w, s) = reconnect_loop e rest (w1, s1)"
        using False Cons.prems(1) skip
        by (auto simp: rc Let_def w1_def s1_def)
      with Cons.IH [OF quiet] mono show ?thesis
        by fastforce
    qed
  qed
qed

lemma attack_connection_overflow_step:
  assumes "\<not> crash_detected s" and "\<not> list_ex is_detection (trace w)"
  shows "\<exists>r w' s'. attack_connection_overflow e iterations (w, s) = Some (r, w', s') \<and>
           consistent (w', s') \<and> r = crash_detected s' \<and> now w \<le> now w'"
proof -
  obtain r w1 s1 where
    l: "overflow_loop e [0..<iterations] (w, s) = Some (r, w1, s1)"
      "consistent (w1, s1)" "r = crash_detected s1" "now w \<le> now w1"
    using overflow_loop_step [OF assms, of e "[0..<iterations]"] by blast
  show ?thesis
  proof (cases r)
    case True
    with l show ?thesis
      by (auto simp: attack_connection_overflow_def)
  next
    case False
    with l have quiet: "\<not> crash_detected s1" "\<not> list_ex is_detection (trace w1)"
      by (simp_all add: consistent_def)
    have "attack_connection_overflow e iterations (w, s) =
            check_for_crash e ''connection_overflow'' (w1, s1)"
      using l(1) False by (simp add: attack_connection_overflow_def)
    with check_for_crash_step [OF quiet, of e "''connection_overflow''"] l(4) show ?thesis
      by fastforce
  qed
qed

lemma attack_rapid_reconnect_step:
  assumes "\<not> crash_detected s" and "\<not> list_ex is_detection (trace w)"
  shows "\<exists>r w' s'. attack_rapid_reconnect e iterations (w, s) = Some (r, w', s') \<and>
           consistent (w', s') \<and> r = crash_detected s' \<and> now w \<le> now w'"
proof -
  obtain r w1 s1 where
    l: "reconnect_loop e [0..<iterations] (w, s) = Some (r, w1, s1)"
      "consistent (w1, s1)" "r = crash_detected s1" "now w \<le> now w1"
    using reconnect_loop_step [OF assms, of e "[0..<iterations]"] by blast
  show ?thesis
  proof (cases r)
    case True
    with l show ?thesis
      by (auto simp: attack_rapid_reconnect_def)
  next
    case False
    with l have quiet: "\<not> crash_detected s1" "\<not> list_ex is_detection (trace w1)"
      by (simp_all add: consistent_def)
    have "attack_rapid_reconnect e iterations (w, s) =
            check_for_crash e ''rapid_reconnect'' (w1, s1)"
      using l(1) False by (simp add: attack_rapid_reconnect_def)
    with check_for_crash_step [OF quiet, of e "''rapid_reconnect''"] l(4) show ?thesis
      by fastforce
  qed
qed

lemma run_attack_step:
  assumes "\<not> crash_detected s" and "\<not> list_ex is_detection (trace w)"
  shows "\<exists>r w' s'. run_attack e a (w, s) = Some (r, w', s') \<and> consistent (w', s') \<and>
           r = crash_detected s' \<and> now w \<le> now w'"
proof (cases a)
  case (ConcurrentFlood duration num_sockets)
  then show ?thesis
    using attack_concurrent_flood_step [OF assms] by simp
next
  case (ConnectionOverflow iterations)
  then show ?thesis
    using attack_connection_overflow_step [OF assms] by simp
next
  case (RapidReconnect iterations)
  then show ?thesis
    using attack_rapid_reconnect_step [OF assms] by simp
next
  case (CombinedStress duration)
  then show ?thesis
    using attack_combined_stress_step [OF assms] by simp
qed

text \<open>With the flag set, every loop is left at once and changes nothing.\<close>

lemma overflow_loop_halted:
  "crash_detected s \<Longrightarrow> overflow_loop e idx (w, s) = Some (False, w, s)"
  by (cases idx) simp_all

lemma reconnect_loop_halted:
  "crash_detected s \<Longrightarrow> reconnect_loop e idx (w, s) = Some (False, w, s)"
  by (cases idx) simp_all

lemma attack_round_halted:
  "crash_detected s \<Longrightarrow> attack_round e end_t atks (w, s) = Some (w, s)"
  by (cases atks) simp_all

lemma round_loop_halted:
  "crash_detected s \<Longrightarrow> round_loop e end_t (w, s) = Some (w, s)"
  by (subst round_loop.simps) simp

lemma run_attack_sticky:
  assumes "crash_detected s" and "run_attack e a (w, s) = Some (r, w', s')"
  shows "crash_detected s'"
proof (cases a)
  case (ConcurrentFlood duration num_sockets)
  obtain sent received d where fl: "flood e (now w) duration num_sockets = (sent, received, d)"
    by (cases "flood e (now w) duration num_sockets") auto
  have "crash_detected (add_responses received (add_requests sent s))"
    using assms(1) by simp
  from check_for_crash_sticky [OF this] assms(2) ConcurrentFlood show ?thesis
    by (simp add: attack_concurrent_flood_def fl)
next
  case (ConnectionOverflow iterations)
  with assms overflow_loop_halted [OF assms(1), of e "[0..<iterations]" w]
  have "check_for_crash e ''connection_overflow'' (w, s) = Some (r, w', s')"
    by (simp add: attack_connection_overflow_def)
  from check_for_crash_sticky [OF assms(1) this] show ?thesis .
next
  case (RapidReconnect iterations)
  with assms reconnect_loop_halted [OF assms(1), of e "[0..<iterations]" w]
  have "check_for_crash e ''rapid_reconnect'' (w, s) = Some (r, w', s')"
    by (simp add: attack_rapid_reconnect_def)
  from check_for_crash_sticky [OF assms(1) this] show ?thesis .
next
  case (CombinedStress duration)
  with assms have "check_for_crash e ''combined_stress'' (w, s) = Some (r, w', s')"
    by (simp add: attack_combined_stress_def)
  from check_for_crash_sticky [OF assms(1) this] show ?thesis .
qed

lemma attack_round_step:
  assumes "consistent (w, s)"
  shows "\<exists>w' s'. attack_round e end_t atks (w, s) = Some (w', s') \<and> consistent (w', s') \<and>
           now w \<le> now w'"
  using assms
proof (induction atks arbitrary: w s)
  case Nil
  then show ?case by simp
next
  case (Cons a rest)
  show ?case
  proof (cases "stop_flag e (now w) \<or> crash_detected s \<or> now w \<ge> end_t")
    case True
    with Cons.prems show ?thesis by auto
  next
    case False
    with Cons.prems have quiet: "\<not> crash_detected s" "\<not> list_ex is_detection (trace w)"
      by (simp_all add: consistent_def)
    obtain r w1 s1 where
      a: "run_attack e a (w, s) = Some (r, w1, s1)" "consistent (w1, s1)" "now w \<le> now w1"
      using run_attack_step [OF quiet, of e a] by blast
    show ?thesis
    proof (cases r)
      case True
      with a False show ?thesis by auto
    next
      case no: False
      have "attack_round e end_t (a # rest) (w, s) = attack_round e end_t rest (w1, s1)"
        using False a(1) no by simp
      with Cons.IH [OF a(2)] a(3) show ?thesis
        by fastforce
    qed
  qed
qed

lemma round_loop_step:
  assumes "consistent (w, s)"
  shows "\<exists>w' s'. round_loop e end_t (w, s) = Some (w', s') \<and> consistent (w', s')"
  using assms
proof (induction "end_t - now w" arbitrary: w s rule: less_induct)
  case less
  show ?case
  proof (cases "now w < end_t \<and> \<not> stop_flag e (now w) \<and> \<not> crash_detected s")
    case False
    then have "round_loop e end_t (w, s) = Some (w, s)"
      by (subst round_loop.simps) auto
    with less.prems show ?thesis by simp
  next
    case True
    obtain w1 s1 where
      r: "attack_round e end_t attack_sequence (w, s) = Some (w1, s1)"
        "consistent (w1, s1)" "now w \<le> now w1"
      using attack_round_step [OF less.prems, of e end_t attack_sequence] by blast
    show ?thesis
    proof (cases "crash_detected s1")
      case halted: True
      have "round_loop e end_t (w, s) = round_loop e end_t (w1, s1)"
        using True r(1) halted by (subst round_loop.simps) simp
      with round_loop_halted [OF halted, of e end_t w1] r(2) show ?thesis
        by simp
    next
      case False
      have step: "round_loop e end_t (w, s) = round_loop e end_t (sleep e 2000 w1, s1)"
        using True r(1) False by (subst round_loop.simps) simp
      have c: "consistent (sleep e 2000 w1, s1)"
        using r(2) False by (simp add: consistent_def)
      have "end_t - now (sleep e 2000 w1) < end_t - now w"
        using True r(3) by auto
      from less.hyps [OF this c] step show ?thesis
        by simp
    qed
  qed
qed

lemma run_crash_test_total:
  assumes "\<not> list_ex is_detection (trace w)"
  shows "\<exists>res tester w'. run_crash_test e ip duration w = Some (res, tester, w') \<and>
           detection_last (trace w') \<and>
           (case tester of
              None \<Rightarrow> res = None \<and> trace w' = trace w
            | Some t \<Rightarrow> res = Some (result t) \<and>
                crash_detected t = (trace w' \<noteq> [] \<and> is_detection (last (trace w'))))"
proof (cases "fst (check_device_alive e 3000 w)")
  case False
  have "detection_last (trace w)"
    using assms by (auto simp: detection_last_def list_ex_iff dest: in_set_butlastD)
  with False show ?thesis
    by (cases "check_device_alive e 3000 w")
      (auto simp: run_crash_test_def check_device_alive_eq)
next
  case True
  define w1 where "w1 = snd (check_device_alive e 3000 w)"
  define tester where "tester = CrashTester_init ip (now w1)"
  have "consistent (w1, tester)"
    using assms
    by (simp add: consistent_def tester_def CrashTester_init_def w1_def check_device_alive_eq)
  from round_loop_step [OF this, of e "now w1 + duration"] obtain w2 s2 where
    r: "round_loop e (now w1 + duration) (w1, tester) = Some (w2, s2)" "consistent (w2, s2)"
    by blast
  define s3 where "s3 = s2\<lparr>result := (result s2)\<lparr>end_time := Some (now w2)\<rparr>\<rparr>"
  have run: "run_crash_test e ip duration w = Some (Some (result s3), Some s3, w2)"
    using True r(1)
    by (cases "check_device_alive e 3000 w")
      (simp add: run_crash_test_def Let_def w1_def tester_def s3_def)
  have flag: "crash_detected s3 = crash_detected s2"
    by (simp add: s3_def)
  have "detection_last (trace w2) \<and>
        crash_detected s3 = (trace w2 \<noteq> [] \<and> is_detection (last (trace w2)))"
  proof (cases "crash_detected s2")
    case True
    with r(2) flag show ?thesis by (simp add: consistent_def)
  next
    case False
    with r(2) have none: "\<not> list_ex is_detection (trace w2)"
      by (simp add: consistent_def)
    then have "detection_last (trace w2)"
      by (auto simp: detection_last_def list_ex_iff dest: in_set_butlastD)
    moreover have "\<not> (trace w2 \<noteq> [] \<and> is_detection (last (trace w2)))"
      using none by (auto simp: list_ex_iff)
    ultimately show ?thesis
      using False flag by simp
  qed
  with run show ?thesis by simp
qed

text \<open>
  C7. Crash detection is sticky and terminal. With \<open>crash_detected\<close> set, both attack
  loops, the loop over the attack sequence and the round loop are left at once with
  the world and the tester unchanged (no further attack work); no crash check and no
  attack called with the flag set clears it; and every run of \<open>run_crash_test\<close> returns,
  with a trace in which nothing follows a detection (so the flag is set at most once,
  and no attack body runs after it), the flag of the tester at the end being set
  exactly when the trace ends with a detection.
\<close>

theorem crash_detection_sticky_terminal:
  "(crash_detected s \<longrightarrow>
      overflow_loop e idx (w, s) = Some (False, w, s) \<and>
      reconnect_loop e idx (w, s) = Some (False, w, s) \<and>
      attack_round e end_t atks (w, s) = Some (w, s) \<and>
      round_loop e end_t (w, s) = Some (w, s)) \<and>
   (\<forall>r w' s'. crash_detected s \<and> check_for_crash e m (w, s) = Some (r, w', s') \<longrightarrow>
      crash_detected s') \<and>
   (\<forall>r w' s'. crash_detected s \<and> run_attack e a (w, s) = Some (r, w', s') \<longrightarrow>
      crash_detected s') \<and>
   (\<not> list_ex is_detection (trace w0) \<longrightarrow>
      (\<exists>res tester w'. run_crash_test e ip duration w0 = Some (res, tester, w') \<and>
         detection_last (trace w') \<and>
         (case tester of
            None \<Rightarrow> res = None \<and> trace w' = trace w0
          | Some t \<Rightarrow> res = Some (result t) \<and>
              crash_detected t = (trace w' \<noteq> [] \<and> is_detection (last (trace w'))))))"
proof (intro conjI impI allI)
  assume "crash_detected s"
  then show "overflow_loop e idx (w, s) = Some (False, w, s)"
    by (rule overflow_loop_halted)
next
  assume "crash_detected s"
  then show "reconnect_loop e idx (w, s) = Some (False, w, s)"
    by (rule reconnect_loop_halted)
next
  assume "crash_detected s"
  then show "attack_round e end_t atks (w, s) = Some (w, s)"
    by (rule attack_round_halted)
next
  assume "crash_detected s"
  then show "round_loop e end_t (w, s) = Some (w, s)"
    by (rule round_loop_halted)
next
  fix r w' s'
  assume "crash_detected s \<and> check_for_crash e m (w, s) = Some (r, w', s')"
  then show "crash_detected s'"
    using check_for_crash_sticky by blast
next
  fix r w' s'
  assume "crash_detected s \<and> run_attack e a (w, s) = Some (r, w', s')"
  then show "crash_detected s'"
    using run_attack_sticky by blast
next
  assume "\<not> list_ex is_detection (trace w0)"
  then show "\<exists>res tester w'. run_crash_test e ip duration w0 = Some (res, tester, w') \<and>
         detection_last (trace w') \<and>
         (case tester of
            None \<Rightarrow> res = None \<and> trace w' = trace w0
          | Some t \<Rightarrow> res = Some (result t) \<and>
              crash_detected t = (trace w' \<noteq> [] \<and> is_detection (last (trace w'))))"
    by (rule run_crash_test_total)
qed

lemma rebooting_run:
  "run_crash_test rebooting_device ''10.0.0.1'' 300000 \<lparr>now = 0, trace = []\<rparr> =
     Some (Some \<lparr>test_name = ''crash_test'', start_time = 5, end_time = Some 33010,
                  requests_sent = 100, responses_received = 40, errors = [],
                  timeouts = 0, connection_failures = 0,
                  device_unresponsive_events = 1, possible_crashes = 1\<rparr>,
           Some \<lparr>scb_ip = ''10.0.0.1'', crash_detected = True,
                  crash_method = Some ''concurrent_flood'',
                  result = \<lparr>test_name = ''crash_test'', start_time = 5,
                    end_time = Some 33010,
                    requests_sent = 100, responses_received = 40, errors = [],
                    timeouts = 0, connection_failures = 0,
                    device_unresponsive_events = 1, possible_crashes = 1\<rparr>\<rparr>,
           \<lparr>now = 33010, trace = [Work ''concurrent_flood'', Detected ''concurrent_flood'']\<rparr>)"
  by (simp add: run_crash_test_def round_loop.simps attack_sequence_def
      attack_concurrent_flood_def check_for_crash_def wait_for_device_def wait_loop.simps
      check_device_alive_eq rebooting_device_def sleep_def tick_def emit_def add_requests_def
      add_responses_def CrashTester_init_def TestResult_init_def Let_def)

theorem crash_detection_sticky_terminal_witness:
  "round_loop rebooting_device 300005
      (\<lparr>now = 33010, trace = [Work ''concurrent_flood'', Detected ''concurrent_flood'']\<rparr>,
       (CrashTester_init ''10.0.0.1'' 5)\<lparr>crash_detected := True\<rparr>) =
     Some (\<lparr>now = 33010, trace = [Work ''concurrent_flood'', Detected ''concurrent_flood'']\<rparr>,
           (CrashTester_init ''10.0.0.1'' 5)\<lparr>crash_detected := True\<rparr>) \<and>
   attack_round rebooting_device 300005 attack_sequence
      (\<lparr>now = 33010, trace = [Work ''concurrent_flood'', Detected ''concurrent_flood'']\<rparr>,
       (CrashTester_init ''10.0.0.1'' 5)\<lparr>crash_detected := True\<rparr>) =
     Some (\<lparr>now = 33010, trace = [Work ''concurrent_flood'', Detected ''concurrent_flood'']\<rparr>,
           (CrashTester_init ''10.0.0.1'' 5)\<lparr>crash_detected := True\<rparr>) \<and>
   (\<exists>r w' s'. check_for_crash rebooting_device ''concurrent_flood''
      (\<lparr>now = 33010, trace = [Work ''concurrent_flood'', Detected ''concurrent_flood'']\<rparr>,
       (CrashTester_init ''10.0.0.1'' 5)\<lparr>crash_detected := True\<rparr>) = Some (r, w', s') \<and>
      crash_detected s') \<and>
   (\<exists>r w' s'. run_attack rebooting_device (ConcurrentFlood 10000 5)
      (\<lparr>now = 33010, trace = [Work ''concurrent_flood'', Detected ''concurrent_flood'']\<rparr>,
       (CrashTester_init ''10.0.0.1'' 5)\<lparr>crash_detected := True\<rparr>) = Some (r, w', s') \<and>
      crash_detected s') \<and>
   (\<exists>res tester w'. run_crash_test rebooting_device ''10.0.0.1'' 300000 \<lparr>now = 0, trace = []\<rparr> =
        Some (res, Some tester, w') \<and>
      trace w' = [Work ''concurrent_flood'', Detected ''concurrent_flood''] \<and>
      detection_last (trace w') \<and> crash_detected tester)"
proof -
  let ?w = "\<lparr>now = 33010, trace = [Work ''concurrent_flood'', Detected ''concurrent_flood'']\<rparr>"
  let ?s = "(CrashTester_init ''10.0.0.1'' 5)\<lparr>crash_detected := True\<rparr>"
  have flag: "crash_detected ?s" by simp
  have start: "\<not> list_ex is_detection (trace \<lparr>now = 0, trace = []\<rparr>)" by simp
  have chk: "check_for_crash rebooting_device ''concurrent_flood'' (?w, ?s) =
      Some (False, tick 5 ?w, ?s)"
    by (simp add: check_for_crash_def check_device_alive_eq rebooting_device_def)
  have atk: "run_attack rebooting_device (ConcurrentFlood 10000 5) (?w, ?s) =
      Some (False, tick 5 (tick 10000 (emit (Work ''concurrent_flood'') ?w)),
            add_responses 40 (add_requests 100 ?s))"
    by (simp add: attack_concurrent_flood_def check_for_crash_def check_device_alive_eq
        rebooting_device_def)
  note inst = crash_detection_sticky_terminal [of ?s rebooting_device "[0, 1, 2]" ?w 300005
      attack_sequence "''concurrent_flood''" "ConcurrentFlood 10000 5"
      "\<lparr>now = 0, trace = []\<rparr>" "''10.0.0.1''" 300000]
  from inst flag chk
  have sticky1: "crash_detected ?s" by blast
  from inst flag atk
  have sticky2: "crash_detected (add_responses 40 (add_requests 100 ?s))" by blast
  from inst
  have loops: "round_loop rebooting_device 300005 (?w, ?s) = Some (?w, ?s)"
      "attack_round rebooting_device 300005 attack_sequence (?w, ?s) = Some (?w, ?s)"
    and run: "\<exists>res tester w'.
        run_crash_test rebooting_device ''10.0.0.1'' 300000 \<lparr>now = 0, trace = []\<rparr> =
          Some (res, tester, w') \<and> detection_last (trace w') \<and>
        (case tester of
            None \<Rightarrow> res = None \<and> trace w' = trace \<lparr>now = 0, trace = []\<rparr>
          | Some t \<Rightarrow> res = Some (result t) \<and>
              crash_detected t = (trace w' \<noteq> [] \<and> is_detection (last (trace w'))))"
    using flag start by blast+
  from run show ?thesis
    using loops chk atk sticky1 sticky2 by (auto simp: rebooting_run)
qed

end
